theory Spec2Isabelle
  imports Complex_Main "HOL-Library.Sublist" "HOL-Library.Multiset" "HOL-Library.Log_Nat"
begin

section \<open>JavaScript values the handlers inspect\<close>

text \<open>
  A request field that carries text is a \<open>string option\<close>: \<open>None\<close> is the field left
  out (JavaScript's \<open>undefined\<close>), \<open>Some s\<close> the string \<open>s\<close>. The test \<open>!x\<close> of the
  handlers holds for \<open>undefined\<close> and for the empty string. A request field that carries
  a JSON number is a \<open>rat option\<close>: the rational value of the finite double that the body
  parser has made of it.
  Fields of any other JSON type are outside the input type of this model. Where a handler
  reads a field after its guard has found it present, the model reads it with \<open>the\<close>.
\<close>

definition falsy :: "string option \<Rightarrow> bool" where
  "falsy x = (case x of None \<Rightarrow> True | Some s \<Rightarrow> s = [])"

text \<open>An HTTP response: the status code and the JSON body.\<close>

type_synonym 'b response = "nat \<times> 'b"

section \<open>Documents shared by the two backends\<close>

text \<open>
  \<open>User{name, phone(unique), password}\<close>. Only \<open>phone\<close> is required by the schema.
  The type \<open>'i\<close> is the database's ObjectId.
\<close>

record 'i user =
  user_id :: 'i
  user_name :: "string option"
  user_phone :: string
  user_password :: "string option"

record user_info =
  ui_name :: string
  ui_phone :: string

record line_item =
  li_name :: string
  li_price :: rat
  li_quantity :: rat

text \<open>
  \<open>Model.findOne({ phone })\<close>: the first stored account with that phone. Every stored
  account has a phone, so a query for an absent phone finds none.
\<close>

definition findOne_user :: "string option \<Rightarrow> 'i user list \<Rightarrow> 'i user option" where
  "findOne_user phone users =
     (case phone of None \<Rightarrow> None | Some p \<Rightarrow> find (\<lambda>u. user_phone u = p) users)"

text \<open>
  \<open>user.save()\<close> on a new document: the insert is refused (the promise rejects) when the
  unique index on \<open>phone\<close> already holds that phone.
\<close>

definition save_user :: "'i user \<Rightarrow> 'i user list \<Rightarrow> 'i user list option" where
  "save_user u users =
     (if user_phone u \<in> set (map user_phone users) then None else Some (users @ [u]))"

record signup_req =
  su_name :: "string option"
  su_phone :: "string option"
  su_password :: "string option"

record login_req =
  lg_phone :: "string option"
  lg_password :: "string option"

section \<open>Rent Easy backend\<close>

record re_address =
  ra_name :: string
  ra_phone :: string
  ra_line1 :: string
  ra_line2 :: "string option"

record 'i re_order =
  ro_id :: 'i
  ro_userId :: 'i
  ro_user :: user_info
  ro_shop :: "string option"
  ro_items :: "line_item list"
  ro_totalAmount :: "rat option"
  ro_deliveryCharge :: rat
  ro_address :: re_address
  ro_paymentMethod :: string
  ro_status :: string
  ro_date :: nat

record 'i re_db =
  re_users :: "'i user list"
  re_orders :: "'i re_order list"

datatype 'i re_body =
    Message bool string
  | Login_ok 'i "string option" string
  | Order_saved 'i string
  | Orders "'i re_order list"
  | Order_updated "'i re_order"

subsection \<open>POST /api/user/signup and /api/user/login\<close>

definition re_user_signup ::
  "'i \<Rightarrow> signup_req \<Rightarrow> 'i re_db \<Rightarrow> 'i re_body response \<times> 'i re_db" where
  "re_user_signup new_id req db =
     (if falsy (su_name req) \<or> falsy (su_phone req) \<or> falsy (su_password req)
      then ((400, Message False ''All fields required''), db)
      else case findOne_user (su_phone req) (re_users db) of
        Some exists \<Rightarrow> ((400, Message False ''Phone already registered''), db)
      | None \<Rightarrow>
          (case save_user \<lparr>user_id = new_id, user_name = su_name req,
                           user_phone = the (su_phone req),
                           user_password = su_password req\<rparr> (re_users db) of
             None \<Rightarrow> ((500, Message False ''Server error''), db)
           | Some users' \<Rightarrow>
               ((200, Message True ''Signup successful''), db\<lparr>re_users := users'\<rparr>)))"

definition re_user_login :: "login_req \<Rightarrow> 'i re_db \<Rightarrow> 'i re_body response" where
  "re_user_login req db =
     (case findOne_user (lg_phone req) (re_users db) of
        None \<Rightarrow> (401, Message False ''Invalid credentials'')
      | Some user \<Rightarrow>
          if user_password user \<noteq> lg_password req
          then (401, Message False ''Invalid credentials'')
          else (200, Login_ok (user_id user) (user_name user) (user_phone user)))"

subsection \<open>POST /api/save-order\<close>

record cart_entry =
  qty :: rat
  price :: rat

text \<open>
  The cart is a JSON object of JSON objects, \<open>shop \<rightarrow> item \<rightarrow> {qty, price}\<close>, held as
  association lists in the order in which \<open>for ... in\<close> and \<open>Object.keys\<close> enumerate
  the keys.
\<close>

type_synonym cart = "(string \<times> (string \<times> cart_entry) list) list"

record save_order_req =
  so_userId :: "string option"
  so_name :: "string option"
  so_phone :: "string option"
  so_address1 :: "string option"
  so_address2 :: "string option"
  so_cart :: "cart option"
  so_itemsTotal :: "rat option"
  so_deliveryCharge :: "rat option"
  so_grandTotal :: "rat option"
  so_paymentMode :: "string option"

text \<open>
  The two nested loops. The state they update is the pair \<open>(items, tot)\<close>, where
  \<open>tot\<close> is the source's \<open>total\<close>; \<open>items.push\<close> appends at the end.
\<close>

fun flatten_shop ::
  "(string \<times> cart_entry) list \<Rightarrow> line_item list \<times> rat \<Rightarrow> line_item list \<times> rat" where
  "flatten_shop [] (items, tot) = (items, tot)"
| "flatten_shop ((item, e) # rest) (items, tot) =
     (if qty e > 0
      then flatten_shop rest
             (items @ [\<lparr>li_name = item, li_price = price e, li_quantity = qty e\<rparr>],
              tot + qty e * price e)
      else flatten_shop rest (items, tot))"

fun flatten_cart :: "cart \<Rightarrow> line_item list \<times> rat \<Rightarrow> line_item list \<times> rat" where
  "flatten_cart [] acc = acc"
| "flatten_cart ((shop, entries) # rest) acc = flatten_cart rest (flatten_shop entries acc)"

text \<open>\<open>Object.keys(cart)[0]\<close>: \<open>undefined\<close> for an object with no key.\<close>

definition first_key :: "('k \<times> 'v) list \<Rightarrow> 'k option" where
  "first_key obj = (case obj of [] \<Rightarrow> None | (k, v) # rest \<Rightarrow> Some k)"

text \<open>
  The handler. \<open>cast\<close> is the database library's conversion of a string to an ObjectId
  (\<open>None\<close> when the string is not one; saving the order then fails validation and the
  promise rejects), \<open>new_id\<close> the \<open>_id\<close> the library gives the new document, \<open>now\<close>
  the clock read by the schema's \<open>default: Date.now\<close>. The schema's default gives the
  status \<open>pending\<close>.
\<close>

definition save_order ::
  "(string \<Rightarrow> 'i option) \<Rightarrow> 'i \<Rightarrow> nat \<Rightarrow> save_order_req \<Rightarrow> 'i re_db
     \<Rightarrow> 'i re_body response \<times> 'i re_db" where
  "save_order cast new_id now req db =
     (if falsy (so_userId req) \<or> falsy (so_name req) \<or> falsy (so_phone req) \<or>
         falsy (so_address1 req) \<or> so_cart req = None
      then ((400, Message False ''Missing data''), db)
      else
        let cart = the (so_cart req);
            (items, tot) = flatten_cart cart ([], 0)
        in if length items = 0 then ((400, Message False ''Cart empty''), db)
           else case cast (the (so_userId req)) of
             None \<Rightarrow> ((500, Message False ''Server error''), db)
           | Some uid \<Rightarrow>
               let order = \<lparr>ro_id = new_id,
                            ro_userId = uid,
                            ro_user = \<lparr>ui_name = the (so_name req), ui_phone = the (so_phone req)\<rparr>,
                            ro_shop = first_key cart,
                            ro_items = items,
                            ro_totalAmount = so_grandTotal req,
                            ro_deliveryCharge =
                              (case so_deliveryCharge req of None \<Rightarrow> 30 | Some d \<Rightarrow> d),
                            ro_address = \<lparr>ra_name = the (so_name req),
                                          ra_phone = the (so_phone req),
                                          ra_line1 = the (so_address1 req),
                                          ra_line2 = so_address2 req\<rparr>,
                            ro_paymentMethod =
                              (case so_paymentMode req of None \<Rightarrow> ''cash'' | Some m \<Rightarrow> m),
                            ro_status = ''pending'',
                            ro_date = now\<rparr>
               in ((200, Order_saved new_id ''Order saved!''),
                   db\<lparr>re_orders := re_orders db @ [order]\<rparr>))"

subsection \<open>GET /api/delivery-orders and GET /api/my-orders\<close>

text \<open>
  \<open>.sort({ date: -1 })\<close>: the documents by descending date. The database does not say
  in which order it returns documents of equal date; no theorem below depends on it.
\<close>

definition sort_date_desc :: "('a \<Rightarrow> nat) \<Rightarrow> 'a list \<Rightarrow> 'a list" where
  "sort_date_desc date os = rev (sort_key date os)"

definition delivery_orders :: "'i re_db \<Rightarrow> 'i re_body response" where
  "delivery_orders db =
     (let orders = sort_date_desc ro_date (filter (\<lambda>x. ro_status x = ''pending'') (re_orders db))
      in (200, Orders orders))"

text \<open>
  \<open>x_user_id\<close> is the request header \<open>x-user-id\<close>. A query whose id does not cast to
  an ObjectId is rejected by the library: the \<open>catch\<close> branch answers.
\<close>

definition my_orders ::
  "(string \<Rightarrow> 'i option) \<Rightarrow> string option \<Rightarrow> 'i re_db \<Rightarrow> 'i re_body response" where
  "my_orders cast x_user_id db =
     (if falsy x_user_id then (400, Message False ''Missing x-user-id header'')
      else case cast (the x_user_id) of
        None \<Rightarrow> (500, Message False ''Error loading orders'')
      | Some userId \<Rightarrow>
          let orders = sort_date_desc ro_date (filter (\<lambda>x. ro_userId x = userId) (re_orders db))
          in (200, Orders orders))"

subsection \<open>POST /api/update-order-status\<close>

record update_req =
  up_orderId :: "string option"
  up_status :: "string option"

text \<open>
  \<open>Order.findByIdAndUpdate(orderId, { status }, { new: true })\<close>: the first order with
  that \<open>_id\<close> gets the new status; the result is the updated order and the updated
  collection, or \<open>None\<close> (JavaScript's \<open>null\<close>) when no order has that \<open>_id\<close>.
\<close>

fun findByIdAndUpdate ::
  "'i \<Rightarrow> string \<Rightarrow> 'i re_order list \<Rightarrow> ('i re_order \<times> 'i re_order list) option" where
  "findByIdAndUpdate oid st [] = None"
| "findByIdAndUpdate oid st (x # xs) =
     (if ro_id x = oid then Some (x\<lparr>ro_status := st\<rparr>, x\<lparr>ro_status := st\<rparr> # xs)
      else case findByIdAndUpdate oid st xs of
        None \<Rightarrow> None
      | Some (order, xs') \<Rightarrow> Some (order, x # xs'))"

definition update_order_status ::
  "(string \<Rightarrow> 'i option) \<Rightarrow> update_req \<Rightarrow> 'i re_db \<Rightarrow> 'i re_body response \<times> 'i re_db" where
  "update_order_status cast req db =
     (if falsy (up_orderId req) \<or>
         up_status req \<notin> set [Some ''delivered'', Some ''cancelled'']
      then ((400, Message False ''Invalid data''), db)
      else case cast (the (up_orderId req)) of
        None \<Rightarrow> ((500, Message False ''Server error''), db)
      | Some oid \<Rightarrow>
          (case findByIdAndUpdate oid (the (up_status req)) (re_orders db) of
             None \<Rightarrow> ((404, Message False ''Order not found''), db)
           | Some (order, orders') \<Rightarrow>
               ((200, Order_updated order), db\<lparr>re_orders := orders'\<rparr>)))"

section \<open>JavaScript strings and numbers (Chat Point's location parsing)\<close>

text \<open>
  A string is a list of 8-bit characters: the JavaScript strings whose code units are
  below 256. \<open>find_first sep s\<close> is the first occurrence of \<open>sep\<close> in \<open>s\<close>: what stands
  before it and what stands after it.
\<close>

fun find_first :: "string \<Rightarrow> string \<Rightarrow> (string \<times> string) option" where
  "find_first sep [] = (if sep = [] then Some ([], []) else None)"
| "find_first sep (c # cs) =
     (if prefix sep (c # cs) then Some ([], drop (length sep) (c # cs))
      else case find_first sep cs of
        None \<Rightarrow> None
      | Some (before, after) \<Rightarrow> Some (c # before, after))"

lemma find_first_Some:
  "find_first sep s = Some (before, after) \<Longrightarrow> s = before @ sep @ after"
proof (induction s arbitrary: before)
  case Nil
  then show ?case by (simp split: if_splits)
next
  case (Cons c cs)
  show ?case
  proof (cases "prefix sep (c # cs)")
    case True
    with Cons.prems have "before = []" and "after = drop (length sep) (c # cs)"
      by simp_all
    moreover from True obtain r where "c # cs = sep @ r"
      by (auto simp: prefix_def)
    ultimately show ?thesis by simp
  next
    case False
    with Cons.prems obtain b where "find_first sep cs = Some (b, after)" and "before = c # b"
      by (auto split: option.splits)
    with Cons.IH show ?thesis by simp
  qed
qed

text \<open>
  \<open>s.split(sep)\<close>. An empty separator splits into the single characters; otherwise the
  pieces between the occurrences of the separator, found from left to right.
\<close>

function split :: "string \<Rightarrow> string \<Rightarrow> string list" where
  "split s sep =
     (if sep = [] then map (\<lambda>c. [c]) s
      else case find_first sep s of
        None \<Rightarrow> [s]
      | Some (before, after) \<Rightarrow> before # split after sep)"
  by pat_completeness auto
termination
proof (relation "measure (\<lambda>(s, sep). length s)")
  show "wf (measure (\<lambda>(s, sep). length s))" by simp
next
  fix s sep :: string and x2 before after
  assume "sep \<noteq> []" and "find_first sep s = Some x2" and "(before, after) = x2"
  then have "s = before @ sep @ after" by (simp add: find_first_Some)
  with \<open>sep \<noteq> []\<close> have "length after < length s" by (cases sep) auto
  then show "((after, sep), (s, sep)) \<in> measure (\<lambda>(s, sep). length s)" by simp
qed

declare split.simps [simp del]

text \<open>\<open>xs[i]\<close> on an array: \<open>undefined\<close> (here \<open>None\<close>) outside the array.\<close>

definition at_index :: "'a list \<Rightarrow> nat \<Rightarrow> 'a option" where
  "at_index xs i = (if i < length xs then Some (xs ! i) else None)"

text \<open>
  A JavaScript Number that \<open>parseFloat\<close> can return: \<open>NaN\<close>, an infinity (\<open>True\<close>
  for the negative one), or \<open>Num q\<close>, the finite double whose value is the rational
  \<open>q\<close>. Negative zero is not told apart from zero.
\<close>

datatype jsnum = NaN | Infinity bool | Num rat

text \<open>
  The Number value for a rational (ECMAScript's rounding of a mathematical value to a
  double): round to the nearest double, ties to the one with an even significand; a result
  of \<open>2^1024\<close> or more is an infinity. \<open>floor_log2 a\<close> is the binary exponent of a
  positive \<open>a\<close>; doubles between \<open>2^e\<close> and \<open>2^(e+1)\<close> are \<open>2^(e-52)\<close> apart,
  and \<open>2^-1074\<close> apart below \<open>2^-1022\<close>.
\<close>

definition floor_log2 :: "rat \<Rightarrow> int" where
  "floor_log2 a =
     (let (p, q) = quotient_of a; e = bitlen p - bitlen q
      in if a < 2 powi e then e - 1 else e)"

definition round_half_even :: "rat \<Rightarrow> int" where
  "round_half_even r =
     (let f = \<lfloor>r\<rfloor>; d = r - of_int f
      in if d < 1 / 2 then f else if 1 / 2 < d then f + 1
         else if even f then f else f + 1)"

definition to_number :: "rat \<Rightarrow> jsnum" where
  "to_number q =
     (if q = 0 then Num 0
      else
        let a = \<bar>q\<bar>;
            e = max (floor_log2 a) (- 1022);
            u = 2 powi (e - 52);
            v = of_int (round_half_even (a / u)) * u
        in if 2 powi 1024 \<le> v then Infinity (q < 0)
           else Num (if q < 0 then - v else v))"

definition is_digit :: "char \<Rightarrow> bool" where
  "is_digit c = (c \<in> set ''0123456789'')"

definition is_space :: "char \<Rightarrow> bool" where
  "is_space c = (of_char c \<in> set [9, 10, 11, 12, 13, 32, 160 :: nat])"

definition digit_val :: "char \<Rightarrow> nat" where
  "digit_val c = of_char c - 48"

definition digits_val :: "string \<Rightarrow> nat" where
  "digits_val ds = foldl (\<lambda>n c. 10 * n + digit_val c) 0 ds"

text \<open>An optional sign in front: whether it is a minus, and the rest.\<close>

definition take_sign :: "string \<Rightarrow> bool \<times> string" where
  "take_sign s =
     (case s of
        [] \<Rightarrow> (False, [])
      | c # cs \<Rightarrow> if c = CHR ''-'' then (True, cs) else if c = CHR ''+'' then (False, cs)
                 else (False, s))"

text \<open>
  The exponent part at the head of a string, when there is one: \<open>e\<close> or \<open>E\<close>, an
  optional sign, at least one digit. The result is the power of ten to multiply by.
\<close>

definition exponent_factor :: "string \<Rightarrow> rat" where
  "exponent_factor s =
     (case s of
        [] \<Rightarrow> 1
      | c # cs \<Rightarrow>
          if c = CHR ''e'' \<or> c = CHR ''E'' then
            (let (neg, r) = take_sign cs; ds = takeWhile is_digit r
             in if ds = [] then 1
                else if neg then 1 / 10 ^ digits_val ds else 10 ^ digits_val ds)
          else 1)"

text \<open>
  \<open>parseFloat(s)\<close> (ECMAScript): leading white space is dropped, then the longest
  prefix that is a decimal literal is read: an optional sign, then \<open>Infinity\<close> or
  digits with an optional fraction and an optional exponent. \<open>NaN\<close> when no prefix is
  one; otherwise the Number value for the number the prefix denotes (the engines round
  the exact value, also past the twentieth significant digit).
\<close>

definition parseFloat :: "string \<Rightarrow> jsnum" where
  "parseFloat s =
     (let (neg, u) = take_sign (dropWhile is_space s) in
      if prefix ''Infinity'' u then Infinity neg
      else
        let ip = takeWhile is_digit u;
            r1 = dropWhile is_digit u;
            (fp, r2) = (case r1 of
                          [] \<Rightarrow> ([], r1)
                        | c # cs \<Rightarrow> if c = CHR ''.''
                                   then (takeWhile is_digit cs, dropWhile is_digit cs)
                                   else ([], r1))
        in if ip = [] \<and> fp = [] then NaN
           else
             let m = (of_nat (digits_val ip) + of_nat (digits_val fp) / 10 ^ length fp)
                       * exponent_factor r2
             in to_number (if neg then - m else m))"

text \<open>
  \<open>parseFloat(x)\<close> where \<open>x\<close> may be \<open>undefined\<close>: the argument is first turned into
  the string \<open>undefined\<close>.
\<close>

definition parseFloat_opt :: "string option \<Rightarrow> jsnum" where
  "parseFloat_opt x = (case x of None \<Rightarrow> parseFloat ''undefined'' | Some s \<Rightarrow> parseFloat s)"

datatype js_error = TypeError

text \<open>
  The two property initialisers of \<open>location\<close>, in source order:
  \<open>parseFloat(address.location.split("Lat: ")[1].split(",")[0])\<close> throws a TypeError
  when \<open>[1]\<close> is \<open>undefined\<close>; \<open>parseFloat(address.location.split("Lng: ")[1])\<close> does
  not call a method on \<open>[1]\<close>.
\<close>

definition parse_location :: "string \<Rightarrow> js_error + jsnum \<times> jsnum" where
  "parse_location location =
     (case at_index (split location ''Lat: '') 1 of
        None \<Rightarrow> Inl TypeError
      | Some after_lat \<Rightarrow>
          let lat = parseFloat_opt (at_index (split after_lat '','') 0);
              lng = parseFloat_opt (at_index (split location ''Lng: '') 1)
          in Inr (lat, lng))"

section \<open>Chat Point backend\<close>

text \<open>
  \<open>Owner{phone(unique), password}\<close>, both required. The messages of this backend are
  given without the emoji that starts some of them.
\<close>

record 'i owner =
  owner_id :: 'i
  owner_phone :: string
  owner_password :: string

record cp_line_item =
  cl_name :: string
  cl_price :: rat
  cl_quantity :: "rat option"

record cp_location =
  lat :: jsnum
  lng :: jsnum

record cp_address =
  ca_name :: "string option"
  ca_phone :: "string option"
  ca_line1 :: string
  ca_line2 :: "string option"
  ca_location :: cp_location

record 'i cp_order =
  co_id :: 'i
  co_userId :: "'i option"
  co_user :: user_info
  co_shop :: string
  co_items :: "cp_line_item list"
  co_totalAmount :: "rat option"
  co_deliveryCharge :: "rat option"
  co_address :: cp_address
  co_paymentMethod :: string
  co_status :: string
  co_date :: nat

record 'i cp_db =
  cp_owners :: "'i owner list"
  cp_users :: "'i user list"
  cp_orders :: "'i cp_order list"

datatype 'i cp_body =
    Cp_message bool string
  | Owner_login string "'i owner"
  | User_login string "'i user"
  | Order_placed string "'i cp_order"
  | Cp_orders "'i cp_order list"

subsection \<open>POST /api/owner/signup and /api/owner/login\<close>

record owner_req =
  ow_phone :: "string option"
  ow_password :: "string option"

definition findOne_owner :: "string option \<Rightarrow> 'i owner list \<Rightarrow> 'i owner option" where
  "findOne_owner phone owners =
     (case phone of None \<Rightarrow> None | Some p \<Rightarrow> find (\<lambda>w. owner_phone w = p) owners)"

definition save_owner :: "'i owner \<Rightarrow> 'i owner list \<Rightarrow> 'i owner list option" where
  "save_owner w owners =
     (if owner_phone w \<in> set (map owner_phone owners) then None else Some (owners @ [w]))"

definition owner_signup ::
  "'i \<Rightarrow> owner_req \<Rightarrow> 'i cp_db \<Rightarrow> 'i cp_body response \<times> 'i cp_db" where
  "owner_signup new_id req db =
     (if falsy (ow_phone req) \<or> falsy (ow_password req)
      then ((400, Cp_message False ''Phone and password required''), db)
      else case findOne_owner (ow_phone req) (cp_owners db) of
        Some existing \<Rightarrow> ((400, Cp_message False ''Owner already exists''), db)
      | None \<Rightarrow>
          (case save_owner \<lparr>owner_id = new_id, owner_phone = the (ow_phone req),
                            owner_password = the (ow_password req)\<rparr> (cp_owners db) of
             None \<Rightarrow> ((500, Cp_message False ''Server error''), db)
           | Some owners' \<Rightarrow>
               ((200, Cp_message True ''Owner registered successfully''),
                db\<lparr>cp_owners := owners'\<rparr>)))"

definition owner_login :: "owner_req \<Rightarrow> 'i cp_db \<Rightarrow> 'i cp_body response" where
  "owner_login req db =
     (case findOne_owner (ow_phone req) (cp_owners db) of
        None \<Rightarrow> (404, Cp_message False ''Owner not found'')
      | Some owner \<Rightarrow>
          if Some (owner_password owner) \<noteq> ow_password req
          then (401, Cp_message False ''Incorrect password'')
          else (200, Owner_login ''Login successful'' owner))"

subsection \<open>POST /api/user/signup and /api/user/login\<close>

definition cp_user_signup ::
  "'i \<Rightarrow> signup_req \<Rightarrow> 'i cp_db \<Rightarrow> 'i cp_body response \<times> 'i cp_db" where
  "cp_user_signup new_id req db =
     (if falsy (su_name req) \<or> falsy (su_phone req) \<or> falsy (su_password req)
      then ((400, Cp_message False ''All fields required''), db)
      else case findOne_user (su_phone req) (cp_users db) of
        Some existing \<Rightarrow> ((400, Cp_message False ''User already exists''), db)
      | None \<Rightarrow>
          (case save_user \<lparr>user_id = new_id, user_name = su_name req,
                           user_phone = the (su_phone req),
                           user_password = su_password req\<rparr> (cp_users db) of
             None \<Rightarrow> ((500, Cp_message False ''Server error''), db)
           | Some users' \<Rightarrow>
               ((200, Cp_message True ''User registered successfully''),
                db\<lparr>cp_users := users'\<rparr>)))"

definition cp_user_login :: "login_req \<Rightarrow> 'i cp_db \<Rightarrow> 'i cp_body response" where
  "cp_user_login req db =
     (case findOne_user (lg_phone req) (cp_users db) of
        None \<Rightarrow> (404, Cp_message False ''User not found'')
      | Some user \<Rightarrow>
          if user_password user \<noteq> lg_password req
          then (401, Cp_message False ''Incorrect password'')
          else (200, User_login ''Login successful'' user))"

subsection \<open>POST /api/order\<close>

record user_req =
  ur_name :: "string option"
  ur_phone :: "string option"

record address_req =
  ar_name :: "string option"
  ar_phone :: "string option"
  ar_line1 :: "string option"
  ar_line2 :: "string option"
  ar_location :: "string option"

text \<open>\<open>items\<close> is a JSON object \<open>item name \<rightarrow> quantity\<close>, held as an association list.\<close>

record order_req =
  or_userId :: "string option"
  or_user :: "user_req option"
  or_shop :: "string option"
  or_items :: "(string \<times> rat) list option"
  or_totalAmount :: "rat option"
  or_deliveryCharge :: "rat option"
  or_address :: "address_req option"
  or_paymentMethod :: "string option"

text \<open>\<open>x?.f\<close>: \<open>undefined\<close> when \<open>x\<close> is.\<close>

definition opt_chain :: "'a option \<Rightarrow> ('a \<Rightarrow> 'b option) \<Rightarrow> 'b option" where
  "opt_chain x f = (case x of None \<Rightarrow> None | Some v \<Rightarrow> f v)"

definition Object_keys :: "('k \<times> 'v) list \<Rightarrow> 'k list" where
  "Object_keys obj = map fst obj"

text \<open>
  \<open>order.save()\<close> validates the document against the schema before the insert. The
  paths marked \<open>required: true\<close> are \<open>user.name\<close>, \<open>user.phone\<close>, \<open>address.name\<close>,
  \<open>address.phone\<close>, \<open>address.line1\<close>, \<open>address.location.lat\<close> and
  \<open>address.location.lng\<close>: a required string must be present and not empty, and
  \<open>NaN\<close> does not cast to a required Number.
\<close>

definition valid_order :: "'i cp_order \<Rightarrow> bool" where
  "valid_order order =
     (ui_name (co_user order) \<noteq> [] \<and> ui_phone (co_user order) \<noteq> [] \<and>
      \<not> falsy (ca_name (co_address order)) \<and> \<not> falsy (ca_phone (co_address order)) \<and>
      ca_line1 (co_address order) \<noteq> [] \<and>
      lat (ca_location (co_address order)) \<noteq> NaN \<and>
      lng (ca_location (co_address order)) \<noteq> NaN)"

text \<open>
  The handler. \<open>userId || null\<close> is \<open>null\<close> (here \<open>None\<close>) for a missing or empty id;
  any other id must cast to an ObjectId or the save is rejected. A throw while the
  document is built, and a rejected save, both end in the \<open>catch\<close> branch.
\<close>

definition post_order ::
  "(string \<Rightarrow> 'i option) \<Rightarrow> 'i \<Rightarrow> nat \<Rightarrow> order_req \<Rightarrow> 'i cp_db
     \<Rightarrow> 'i cp_body response \<times> 'i cp_db" where
  "post_order cast new_id now req db =
     (if falsy (opt_chain (or_user req) ur_name) \<or>
         falsy (opt_chain (or_user req) ur_phone) \<or>
         or_items req = None \<or>
         length (Object_keys (the (or_items req))) = 0 \<or>
         falsy (opt_chain (or_address req) ar_line1) \<or>
         falsy (opt_chain (or_address req) ar_location)
      then ((400, Cp_message False ''Incomplete order data or location missing''), db)
      else
        let user = the (or_user req);
            items = the (or_items req);
            address = the (or_address req);
            orderItems = map (\<lambda>name. \<lparr>cl_name = name, cl_price = 100,
                                        cl_quantity = map_of items name\<rparr>)
                             (Object_keys items)
        in case parse_location (the (ar_location address)) of
          Inl err \<Rightarrow> ((500, Cp_message False ''Failed to save order''), db)
        | Inr (lat_v, lng_v) \<Rightarrow>
            (case (if falsy (or_userId req) then Some None
                   else map_option Some (cast (the (or_userId req)))) of
               None \<Rightarrow> ((500, Cp_message False ''Failed to save order''), db)
             | Some userId \<Rightarrow>
                 let order =
                   \<lparr>co_id = new_id,
                    co_userId = userId,
                    co_user = \<lparr>ui_name = the (ur_name user), ui_phone = the (ur_phone user)\<rparr>,
                    co_shop = (if falsy (or_shop req) then ''Unknown Shop''
                               else the (or_shop req)),
                    co_items = orderItems,
                    co_totalAmount = or_totalAmount req,
                    co_deliveryCharge = or_deliveryCharge req,
                    co_address = \<lparr>ca_name = ar_name address, ca_phone = ar_phone address,
                                  ca_line1 = the (ar_line1 address),
                                  ca_line2 = ar_line2 address,
                                  ca_location = \<lparr>lat = lat_v, lng = lng_v\<rparr>\<rparr>,
                    co_paymentMethod = (if falsy (or_paymentMethod req) then ''cash''
                                        else the (or_paymentMethod req)),
                    co_status = (if or_paymentMethod req = Some ''cash'' then ''pending''
                                 else ''unpaid''),
                    co_date = now\<rparr>
                 in if \<not> valid_order order
                    then ((500, Cp_message False ''Failed to save order''), db)
                    else ((200, Order_placed ''Order placed successfully'' order),
                          db\<lparr>cp_orders := cp_orders db @ [order]\<rparr>)))"

subsection \<open>GET /api/orders/:userId\<close>

definition get_orders ::
  "(string \<Rightarrow> 'i option) \<Rightarrow> string \<Rightarrow> 'i cp_db \<Rightarrow> 'i cp_body response" where
  "get_orders cast userId db =
     (case cast userId of
        None \<Rightarrow> (500, Cp_message False ''Failed to fetch orders'')
      | Some uid \<Rightarrow>
          let orders = sort_date_desc co_date (filter (\<lambda>x. co_userId x = Some uid) (cp_orders db))
          in (200, Cp_orders orders))"

section \<open>Service worker (sw.js)\<close>

text \<open>
  The browser's side of the worker: a request, a response, the network (\<open>None\<close> when
  \<open>fetch\<close> rejects), one cache as the list of its entries (request URL and stored
  response) and the cache storage as the list of the named caches in the order of their
  creation. A URL is the string the browser has resolved it to. Responses carry no
  \<open>Vary\<close> header (the two servers of the repository send none), so a cached entry is
  found by its URL alone.
\<close>

record sw_request =
  rq_method :: string
  rq_url :: string

record sw_response =
  rs_status :: nat
  rs_body :: string

type_synonym network = "sw_request \<Rightarrow> sw_response option"
type_synonym cache = "(string \<times> sw_response) list"
type_synonym cache_storage = "(string \<times> cache) list"

definition CACHE_NAME :: string where
  "CACHE_NAME = ''chatpoint-v9''"

definition urlsToCache :: "string list" where
  "urlsToCache =
     [''/'', ''/index.html'', ''/items.html'', ''/cart.html'', ''/login.html'',
      ''/orders.html'', ''/manifest.json'', ''/icon-192.png'', ''/icon-512.png'']"

text \<open>\<open>caches.open(name)\<close> creates the cache when the storage has none of that name.\<close>

definition caches_open :: "string \<Rightarrow> cache_storage \<Rightarrow> cache_storage" where
  "caches_open name caches =
     (if name \<in> set (map fst caches) then caches else caches @ [(name, [])])"

text \<open>
  The Cache API compares the URL of a request and of a cached entry without their
  fragments. \<open>cache_match entries url\<close> is the response of the first entry for the URL.
\<close>

definition strip_fragment :: "string \<Rightarrow> string" where
  "strip_fragment url = takeWhile (\<lambda>c. c \<noteq> CHR ''#'') url"

definition same_url :: "string \<Rightarrow> string \<Rightarrow> bool" where
  "same_url a b = (strip_fragment a = strip_fragment b)"

definition cache_match :: "cache \<Rightarrow> string \<Rightarrow> sw_response option" where
  "cache_match entries url = map_option snd (find (\<lambda>e. same_url (fst e) url) entries)"

text \<open>
  \<open>cache.put(url, response)\<close> as \<open>addAll\<close> performs it: the entries already stored for
  the URL are deleted and the new entry is added at the end.
\<close>

definition cache_put :: "string \<Rightarrow> sw_response \<Rightarrow> cache \<Rightarrow> cache" where
  "cache_put url response entries =
     filter (\<lambda>e. \<not> same_url (fst e) url) entries @ [(url, response)]"

text \<open>\<open>response.ok\<close>, and the responses \<open>addAll\<close> accepts: ok and not 206.\<close>

definition response_ok :: "sw_response \<Rightarrow> bool" where
  "response_ok r = (200 \<le> rs_status r \<and> rs_status r \<le> 299)"

definition addable :: "sw_response \<Rightarrow> bool" where
  "addable r = (response_ok r \<and> rs_status r \<noteq> 206)"

text \<open>
  \<open>cache.addAll(urls)\<close>: every URL is fetched with GET; when a fetch fails, a response
  is not ok or is a 206, or two of the URLs are the same but for their fragments, the
  promise rejects (\<open>None\<close>) and the cache is not touched; otherwise every response is
  put.
\<close>

fun fetch_all :: "network \<Rightarrow> string list \<Rightarrow> (string \<times> sw_response) list option" where
  "fetch_all net [] = Some []"
| "fetch_all net (url # urls) =
     (case net \<lparr>rq_method = ''GET'', rq_url = url\<rparr> of
        None \<Rightarrow> None
      | Some r \<Rightarrow>
          if \<not> addable r then None
          else (case fetch_all net urls of
                  None \<Rightarrow> None
                | Some rs \<Rightarrow> Some ((url, r) # rs)))"

definition cache_addAll :: "network \<Rightarrow> string list \<Rightarrow> cache \<Rightarrow> cache option" where
  "cache_addAll net urls entries =
     (if \<not> distinct (map strip_fragment urls) then None
      else case fetch_all net urls of
        None \<Rightarrow> None
      | Some fetched \<Rightarrow> Some (fold (\<lambda>(url, r). cache_put url r) fetched entries))"

text \<open>
  The install listener: \<open>caches.open(CACHE_NAME).then(cache => cache.addAll(urlsToCache))\<close>.
  The result says whether the promise given to \<open>waitUntil\<close> was fulfilled, and gives the
  cache storage afterwards.
\<close>

definition install :: "network \<Rightarrow> cache_storage \<Rightarrow> bool \<times> cache_storage" where
  "install net caches =
     (let opened = caches_open CACHE_NAME caches
      in case map_of opened CACHE_NAME of
        None \<Rightarrow> (False, opened)
      | Some entries \<Rightarrow>
          (case cache_addAll net urlsToCache entries of
             None \<Rightarrow> (False, opened)
           | Some entries' \<Rightarrow>
               (True, map (\<lambda>(name, c). if name = CACHE_NAME then (name, entries') else (name, c))
                          opened)))"

text \<open>
  \<open>caches.match(request)\<close>: the caches are searched in the order of their creation for
  an entry with the request's URL (fragments apart); only a GET request matches.
\<close>

fun caches_match :: "cache_storage \<Rightarrow> sw_request \<Rightarrow> sw_response option" where
  "caches_match [] request = None"
| "caches_match ((name, entries) # caches) request =
     (if rq_method request \<noteq> ''GET'' then None
      else case cache_match entries (rq_url request) of
        Some r \<Rightarrow> Some r
      | None \<Rightarrow> caches_match caches request)"

text \<open>
  The fetch listener: \<open>caches.match(e.request).then(response => response || fetch(e.request))\<close>.
  The result is what \<open>respondWith\<close> receives (\<open>None\<close> when the promise rejects) and
  the cache storage afterwards.
\<close>

definition on_fetch ::
  "network \<Rightarrow> cache_storage \<Rightarrow> sw_request \<Rightarrow> sw_response option \<times> cache_storage" where
  "on_fetch net caches request =
     (case caches_match caches request of
        Some response \<Rightarrow> (Some response, caches)
      | None \<Rightarrow> (net request, caches))"

section \<open>What the claims expect\<close>

text \<open>What the claim expects for one cart entry: \<open>{name: item, price, quantity: qty}\<close>.\<close>

definition line_of :: "string \<times> cart_entry \<Rightarrow> line_item" where
  "line_of ie = \<lparr>li_name = fst ie, li_price = price (snd ie), li_quantity = qty (snd ie)\<rparr>"

text \<open>All entries of a cart, shop after shop.\<close>

definition cart_entries :: "cart \<Rightarrow> (string \<times> cart_entry) list" where
  "cart_entries c = concat (map snd c)"

definition positive_lines :: "cart \<Rightarrow> line_item list" where
  "positive_lines c = map line_of (filter (\<lambda>ie. 0 < qty (snd ie)) (cart_entries c))"

text \<open>No stored account has the phone of the request.\<close>

definition no_user :: "string option \<Rightarrow> 'i user list \<Rightarrow> bool" where
  "no_user phone users = (\<forall>u \<in> set users. Some (user_phone u) \<noteq> phone)"

definition no_owner :: "string option \<Rightarrow> 'i owner list \<Rightarrow> bool" where
  "no_owner phone owners = (\<forall>w \<in> set owners. Some (owner_phone w) \<noteq> phone)"

text \<open>
  A decimal numeral as a coordinate is written: an optional sign, digits, an optional
  point with digits after it, an optional exponent (\<open>e\<close> or \<open>E\<close>, an optional sign,
  digits); there is a digit before or after the point. Its text, and the number it
  denotes.
\<close>

datatype sign = No_sign | Plus_sign | Minus_sign

datatype decimal =
  Decimal sign "nat list" "nat list option" "(bool \<times> sign \<times> nat list) option"

definition digit_char :: "nat \<Rightarrow> char" where
  "digit_char d = ''0123456789'' ! d"

definition nat_of_digits :: "nat list \<Rightarrow> nat" where
  "nat_of_digits ds = foldl (\<lambda>n d. 10 * n + d) 0 ds"

fun show_sign :: "sign \<Rightarrow> string" where
  "show_sign No_sign = []"
| "show_sign Plus_sign = ''+''"
| "show_sign Minus_sign = ''-''"

fun show_fraction :: "nat list option \<Rightarrow> string" where
  "show_fraction None = []"
| "show_fraction (Some fp) = CHR ''.'' # map digit_char fp"

fun show_exponent :: "(bool \<times> sign \<times> nat list) option \<Rightarrow> string" where
  "show_exponent None = []"
| "show_exponent (Some (capital, s, ds)) =
     (if capital then CHR ''E'' else CHR ''e'') # show_sign s @ map digit_char ds"

fun show_decimal :: "decimal \<Rightarrow> string" where
  "show_decimal (Decimal s ip fr ex) =
     show_sign s @ map digit_char ip @ show_fraction fr @ show_exponent ex"

fun fraction_value :: "nat list option \<Rightarrow> rat" where
  "fraction_value None = 0"
| "fraction_value (Some fp) = of_nat (nat_of_digits fp) / 10 ^ length fp"

fun exponent_value :: "(bool \<times> sign \<times> nat list) option \<Rightarrow> rat" where
  "exponent_value None = 1"
| "exponent_value (Some (capital, s, ds)) =
     (if s = Minus_sign then 1 / 10 ^ nat_of_digits ds else 10 ^ nat_of_digits ds)"

fun decimal_value :: "decimal \<Rightarrow> rat" where
  "decimal_value (Decimal s ip fr ex) =
     (if s = Minus_sign then - 1 else 1) *
     ((of_nat (nat_of_digits ip) + fraction_value fr) * exponent_value ex)"

fun wf_fraction :: "nat list \<Rightarrow> nat list option \<Rightarrow> bool" where
  "wf_fraction ip None = (ip \<noteq> [])"
| "wf_fraction ip (Some fp) = (list_all (\<lambda>d. d < 10) fp \<and> (ip \<noteq> [] \<or> fp \<noteq> []))"

fun wf_exponent :: "(bool \<times> sign \<times> nat list) option \<Rightarrow> bool" where
  "wf_exponent None = True"
| "wf_exponent (Some (capital, s, ds)) = (ds \<noteq> [] \<and> list_all (\<lambda>d. d < 10) ds)"

fun wf_decimal :: "decimal \<Rightarrow> bool" where
  "wf_decimal (Decimal s ip fr ex) =
     (list_all (\<lambda>d. d < 10) ip \<and> wf_fraction ip fr \<and> wf_exponent ex)"

text \<open>The request gets past the handler's first \<open>if\<close>; the location string it carries.\<close>

definition passes_checks :: "order_req \<Rightarrow> bool" where
  "passes_checks req =
     (\<not> falsy (opt_chain (or_user req) ur_name) \<and>
      \<not> falsy (opt_chain (or_user req) ur_phone) \<and>
      or_items req \<noteq> None \<and>
      Object_keys (the (or_items req)) \<noteq> [] \<and>
      \<not> falsy (opt_chain (or_address req) ar_line1) \<and>
      \<not> falsy (opt_chain (or_address req) ar_location))"

definition location_of :: "order_req \<Rightarrow> string option" where
  "location_of req = opt_chain (or_address req) ar_location"

text \<open>The document the handler builds, once the checks and the parsing are through.\<close>

definition built_order ::
  "'i \<Rightarrow> nat \<Rightarrow> order_req \<Rightarrow> 'i option \<Rightarrow> jsnum \<Rightarrow> jsnum \<Rightarrow> 'i cp_order" where
  "built_order new_id now req userId lat_v lng_v =
     \<lparr>co_id = new_id,
      co_userId = userId,
      co_user = \<lparr>ui_name = the (ur_name (the (or_user req))),
                  ui_phone = the (ur_phone (the (or_user req)))\<rparr>,
      co_shop = (if falsy (or_shop req) then ''Unknown Shop'' else the (or_shop req)),
      co_items = map (\<lambda>name. \<lparr>cl_name = name, cl_price = 100,
                                 cl_quantity = map_of (the (or_items req)) name\<rparr>)
                     (Object_keys (the (or_items req))),
      co_totalAmount = or_totalAmount req,
      co_deliveryCharge = or_deliveryCharge req,
      co_address = \<lparr>ca_name = ar_name (the (or_address req)),
                    ca_phone = ar_phone (the (or_address req)),
                    ca_line1 = the (ar_line1 (the (or_address req))),
                    ca_line2 = ar_line2 (the (or_address req)),
                    ca_location = \<lparr>lat = lat_v, lng = lng_v\<rparr>\<rparr>,
      co_paymentMethod = (if falsy (or_paymentMethod req) then ''cash''
                          else the (or_paymentMethod req)),
      co_status = (if or_paymentMethod req = Some ''cash'' then ''pending'' else ''unpaid''),
      co_date = now\<rparr>"

text \<open>The response a named cache holds for a URL.\<close>

definition lookup :: "cache_storage \<Rightarrow> string \<Rightarrow> string \<Rightarrow> sw_response option" where
  "lookup caches name url =
     (case map_of caches name of None \<Rightarrow> None | Some entries \<Rightarrow> cache_match entries url)"

section \<open>Example inputs\<close>

definition demo_cart :: cart where
  "demo_cart =
     [(''stationery'', [(''pen'', \<lparr>qty = 2, price = 50\<rparr>), (''cap'', \<lparr>qty = 0, price = 10\<rparr>)]),
      (''grocer'', [(''rice'', \<lparr>qty = 1, price = 75 / 2\<rparr>)])]"

definition demo_save_req :: save_order_req where
  "demo_save_req =
     \<lparr>so_userId = Some ''u1'', so_name = Some ''Asha'', so_phone = Some ''98'',
      so_address1 = Some ''12 Hill Road'', so_address2 = None, so_cart = Some demo_cart,
      so_itemsTotal = None, so_deliveryCharge = None, so_grandTotal = Some 1,
      so_paymentMode = None\<rparr>"

definition empty_re_db :: "string re_db" where
  "empty_re_db = \<lparr>re_users = [], re_orders = []\<rparr>"

definition demo_pending_db :: "string re_db" where
  "demo_pending_db = snd (save_order Some ''o1'' 5 demo_save_req empty_re_db)"

definition deliver_req :: update_req where
  "deliver_req = \<lparr>up_orderId = Some ''o1'', up_status = Some ''delivered''\<rparr>"

definition cancel_req :: update_req where
  "cancel_req = \<lparr>up_orderId = Some ''o1'', up_status = Some ''cancelled''\<rparr>"

definition demo_signup :: signup_req where
  "demo_signup = \<lparr>su_name = Some ''Asha'', su_phone = Some ''98'', su_password = Some ''pw''\<rparr>"

definition demo_owner_req :: owner_req where
  "demo_owner_req = \<lparr>ow_phone = Some ''70'', ow_password = Some ''s3''\<rparr>"

definition empty_cp_db :: "string cp_db" where
  "empty_cp_db = \<lparr>cp_owners = [], cp_users = [], cp_orders = []\<rparr>"

definition demo_user_db :: "string re_db" where
  "demo_user_db = snd (re_user_signup ''u1'' demo_signup empty_re_db)"

definition demo_cp_db :: "string cp_db" where
  "demo_cp_db = snd (owner_signup ''w1'' demo_owner_req
                      (snd (cp_user_signup ''u1'' demo_signup empty_cp_db)))"

definition wrong_login :: login_req where
  "wrong_login = \<lparr>lg_phone = Some ''98'', lg_password = Some ''guess''\<rparr>"

definition right_login :: login_req where
  "right_login = \<lparr>lg_phone = Some ''98'', lg_password = Some ''pw''\<rparr>"

definition unknown_login :: login_req where
  "unknown_login = \<lparr>lg_phone = Some ''55'', lg_password = Some ''pw''\<rparr>"

definition wrong_owner_req :: owner_req where
  "wrong_owner_req = \<lparr>ow_phone = Some ''70'', ow_password = Some ''guess''\<rparr>"

definition demo_order :: "string \<Rightarrow> nat \<Rightarrow> string \<Rightarrow> string re_order" where
  "demo_order oid t st =
     \<lparr>ro_id = oid, ro_userId = ''u1'',
      ro_user = \<lparr>ui_name = ''Asha'', ui_phone = ''98''\<rparr>,
      ro_shop = Some ''stationery'',
      ro_items = [\<lparr>li_name = ''pen'', li_price = 50, li_quantity = 2\<rparr>,
                  \<lparr>li_name = ''rice'', li_price = 75 / 2, li_quantity = 1\<rparr>],
      ro_totalAmount = Some 1, ro_deliveryCharge = 30,
      ro_address = \<lparr>ra_name = ''Asha'', ra_phone = ''98'', ra_line1 = ''12 Hill Road'',
                    ra_line2 = None\<rparr>,
      ro_paymentMethod = ''cash'', ro_status = st, ro_date = t\<rparr>"

definition demo_orders_db :: "string re_db" where
  "demo_orders_db =
     \<lparr>re_users = [],
      re_orders = [demo_order ''o1'' 5 ''delivered'', demo_order ''o2'' 9 ''pending'',
                   demo_order ''o3'' 7 ''pending'']\<rparr>"

definition demo_order_req :: "string \<Rightarrow> order_req" where
  "demo_order_req location =
     \<lparr>or_userId = None,
      or_user = Some \<lparr>ur_name = Some ''Asha'', ur_phone = Some ''98''\<rparr>,
      or_shop = Some ''Tea Stall'',
      or_items = Some [(''chai'', 2), (''bun'', 1)],
      or_totalAmount = Some 300, or_deliveryCharge = Some 20,
      or_address = Some \<lparr>ar_name = Some ''Asha'', ar_phone = Some ''98'',
                          ar_line1 = Some ''12 Hill Road'', ar_line2 = None,
                          ar_location = Some location\<rparr>,
      or_paymentMethod = Some ''cash''\<rparr>"


definition net_ok :: network where
  "net_ok request = Some \<lparr>rs_status = 200, rs_body = rq_url request\<rparr>"

text \<open>A network that answers one of the listed paths with a partial response.\<close>

definition net_partial :: network where
  "net_partial request =
     (if rq_url request = ''/icon-512.png'' then Some \<lparr>rs_status = 206, rs_body = ''part''\<rparr>
      else net_ok request)"

definition stale_caches :: cache_storage where
  "stale_caches = [(CACHE_NAME, [(''/'', \<lparr>rs_status = 200, rs_body = ''old page''\<rparr>)])]"

definition installed_caches :: cache_storage where
  "installed_caches = snd (install net_ok [])"

definition cart_page_request :: sw_request where
  "cart_page_request = \<lparr>rq_method = ''GET'', rq_url = ''/cart.html#top''\<rparr>"

definition shops_request :: sw_request where
  "shops_request = \<lparr>rq_method = ''GET'', rq_url = ''/api/shops''\<rparr>"


section \<open>Rent Easy: flattening the cart\<close>

lemma flatten_shop_eq:
  "flatten_shop es (items, tot) =
     (items @ map line_of (filter (\<lambda>ie. 0 < qty (snd ie)) es),
      tot + (\<Sum>ie \<leftarrow> filter (\<lambda>ie. 0 < qty (snd ie)) es. qty (snd ie) * price (snd ie)))"
  by (induction es arbitrary: items tot) (auto simp: line_of_def)

lemma flatten_cart_eq:
  "flatten_cart c (items, tot) =
     (items @ map line_of (filter (\<lambda>ie. 0 < qty (snd ie)) (cart_entries c)),
      tot + (\<Sum>ie \<leftarrow> filter (\<lambda>ie. 0 < qty (snd ie)) (cart_entries c).
                 qty (snd ie) * price (snd ie)))"
  by (induction c arbitrary: items tot) (auto simp: flatten_shop_eq cart_entries_def)

lemma flatten_cart_items:
  "fst (flatten_cart c ([], 0)) = map line_of (filter (\<lambda>ie. 0 < qty (snd ie)) (cart_entries c))"
  by (simp add: flatten_cart_eq)

lemma save_order_rejects:
  "so_cart req = Some c \<Longrightarrow> positive_lines c = [] \<Longrightarrow>
     fst (fst (save_order cast new_id now req db)) = 400 \<and>
     snd (save_order cast new_id now req db) = db"
  by (simp add: save_order_def positive_lines_def flatten_cart_eq)

lemma save_order_persists:
  "so_cart req = Some c \<Longrightarrow> fst (fst (save_order cast new_id now req db)) = 200 \<Longrightarrow>
     \<exists>x. re_orders (snd (save_order cast new_id now req db)) = re_orders db @ [x] \<and>
         ro_items x = positive_lines c"
  by (auto simp: save_order_def positive_lines_def flatten_cart_eq Let_def
           split: if_splits option.splits)

text \<open>
  C1. For a save-order request whose cart is the nested mapping \<open>c\<close>, the list the two
  loops build has exactly one line \<open>{name: item, price, quantity: qty}\<close> for each cart
  entry with \<open>qty > 0\<close>, in the cart's order, and nothing else; when no entry has
  \<open>qty > 0\<close> the response is 400 and the database is unchanged; and an accepted request
  stores one new order whose items are that list.
\<close>

theorem save_order_line_items:
  assumes "so_cart req = Some c"
  shows "fst (flatten_cart c ([], 0)) = positive_lines c \<and>
     (positive_lines c = [] \<longrightarrow>
        fst (fst (save_order cast new_id now req db)) = 400 \<and>
        snd (save_order cast new_id now req db) = db) \<and>
     (fst (fst (save_order cast new_id now req db)) = 200 \<longrightarrow>
        (\<exists>x. re_orders (snd (save_order cast new_id now req db)) = re_orders db @ [x] \<and>
             ro_items x = positive_lines c))"
  using save_order_rejects [OF assms, of cast new_id now db]
    save_order_persists [OF assms, of cast new_id now db]
  by (simp add: flatten_cart_items positive_lines_def)

theorem save_order_line_items_witness:
  "so_cart demo_save_req = Some demo_cart \<and>
   fst (fst (save_order Some ''o1'' 5 demo_save_req empty_re_db)) = 200 \<and>
   positive_lines demo_cart =
     [\<lparr>li_name = ''pen'', li_price = 50, li_quantity = 2\<rparr>,
      \<lparr>li_name = ''rice'', li_price = 75 / 2, li_quantity = 1\<rparr>] \<and>
   (\<exists>x. re_orders (snd (save_order Some ''o1'' 5 demo_save_req empty_re_db)) = [x] \<and>
        ro_items x = positive_lines demo_cart)"
proof -
  have c: "so_cart demo_save_req = Some demo_cart"
    by (simp add: demo_save_req_def)
  have ok: "fst (fst (save_order Some ''o1'' 5 demo_save_req empty_re_db)) = 200"
    by (simp add: save_order_def demo_save_req_def demo_cart_def falsy_def)
  have pl: "positive_lines demo_cart =
     [\<lparr>li_name = ''pen'', li_price = 50, li_quantity = 2\<rparr>,
      \<lparr>li_name = ''rice'', li_price = 75 / 2, li_quantity = 1\<rparr>]"
    by (simp add: positive_lines_def demo_cart_def cart_entries_def line_of_def)
  from save_order_line_items [OF c, of Some "''o1''" 5 empty_re_db] ok
  have "\<exists>x. re_orders (snd (save_order Some ''o1'' 5 demo_save_req empty_re_db)) =
            re_orders empty_re_db @ [x] \<and> ro_items x = positive_lines demo_cart"
    by blast
  then show ?thesis using c ok pl by (simp add: empty_re_db_def)
qed

section \<open>Rent Easy: the stored total\<close>





section \<open>Rent Easy: order status\<close>

lemma findByIdAndUpdate_Some:
  "findByIdAndUpdate oid st xs = Some (u, xs') \<Longrightarrow>
     \<exists>pre x post. xs = pre @ x # post \<and> xs' = pre @ x\<lparr>ro_status := st\<rparr> # post \<and>
        u = x\<lparr>ro_status := st\<rparr> \<and> ro_id x = oid \<and> oid \<notin> set (map ro_id pre)"
proof (induction xs arbitrary: xs')
  case Nil
  then show ?case by simp
next
  case (Cons a xs)
  show ?case
  proof (cases "ro_id a = oid")
    case True
    with Cons.prems have "u = a\<lparr>ro_status := st\<rparr>" and "xs' = a\<lparr>ro_status := st\<rparr> # xs"
      by auto
    with True have "a # xs = [] @ a # xs \<and> xs' = [] @ a\<lparr>ro_status := st\<rparr> # xs \<and>
        u = a\<lparr>ro_status := st\<rparr> \<and> ro_id a = oid \<and> oid \<notin> set (map ro_id [])"
      by simp
    then show ?thesis by blast
  next
    case False
    with Cons.prems obtain ys where r: "findByIdAndUpdate oid st xs = Some (u, ys)" and x: "xs' = a # ys"
      by (auto split: option.splits)
    from Cons.IH [OF r] obtain pre x post where
      "xs = pre @ x # post" "ys = pre @ x\<lparr>ro_status := st\<rparr> # post"
      "u = x\<lparr>ro_status := st\<rparr>" "ro_id x = oid" "oid \<notin> set (map ro_id pre)"
      by blast
    with False x have "a # xs = (a # pre) @ x # post \<and> xs' = (a # pre) @ x\<lparr>ro_status := st\<rparr> # post \<and>
        u = x\<lparr>ro_status := st\<rparr> \<and> ro_id x = oid \<and> oid \<notin> set (map ro_id (a # pre))"
      by auto
    then show ?thesis by blast
  qed
qed

lemma update_bad_status:
  "up_status req \<notin> {Some ''delivered'', Some ''cancelled''} \<Longrightarrow>
     update_order_status cast req db = ((400, Message False ''Invalid data''), db)"
  by (simp add: update_order_status_def)

lemma update_not_ok:
  "fst (fst (update_order_status cast req db)) \<noteq> 200 \<Longrightarrow> snd (update_order_status cast req db) = db"
  by (auto simp: update_order_status_def split: if_splits option.splits prod.splits)

lemma findByIdAndUpdate_None:
  "findByIdAndUpdate oid st xs = None \<longleftrightarrow> oid \<notin> set (map ro_id xs)"
  by (induction xs) (auto split: option.splits)

lemma update_ok:
  assumes "fst (fst (update_order_status cast req db)) = 200"
  shows "\<exists>st i oid pre x post. up_status req = Some st \<and> st \<in> {''delivered'', ''cancelled''} \<and>
      up_orderId req = Some i \<and> cast i = Some oid \<and>
      re_orders db = pre @ x # post \<and> ro_id x = oid \<and> oid \<notin> set (map ro_id pre) \<and>
      update_order_status cast req db =
        ((200, Order_updated (x\<lparr>ro_status := st\<rparr>)),
         db\<lparr>re_orders := pre @ x\<lparr>ro_status := st\<rparr> # post\<rparr>)"
proof -
  from assms obtain st where st: "up_status req = Some st" "st \<in> {''delivered'', ''cancelled''}"
    by (auto simp: update_order_status_def split: if_splits)
  from assms obtain i where i: "up_orderId req = Some i"
    by (cases "up_orderId req") (auto simp: update_order_status_def falsy_def)
  from assms st i obtain oid u xs' where c: "cast i = Some oid"
    and f: "findByIdAndUpdate oid st (re_orders db) = Some (u, xs')"
    by (auto simp: update_order_status_def split: if_splits option.splits)
  from assms st i c f have s: "update_order_status cast req db =
      ((200, Order_updated u), db\<lparr>re_orders := xs'\<rparr>)"
    by (auto simp: update_order_status_def split: if_splits)
  from findByIdAndUpdate_Some [OF f] obtain pre x post where
    "re_orders db = pre @ x # post" "xs' = pre @ x\<lparr>ro_status := st\<rparr> # post"
    "u = x\<lparr>ro_status := st\<rparr>" "ro_id x = oid" "oid \<notin> set (map ro_id pre)"
    by blast
  with st i c s show ?thesis by blast
qed

lemma update_applies:
  assumes "up_status req = Some st" and "st \<in> {''delivered'', ''cancelled''}"
    and "up_orderId req = Some i" and "i \<noteq> []" and "cast i = Some oid"
    and "oid \<in> set (map ro_id (re_orders db))"
  shows "fst (fst (update_order_status cast req db)) = 200"
proof -
  from assms(6) obtain p where "findByIdAndUpdate oid st (re_orders db) = Some p"
    using findByIdAndUpdate_None [of oid st "re_orders db"]
    by (cases "findByIdAndUpdate oid st (re_orders db)") auto
  with assms(1-5) show ?thesis
    by (cases p) (auto simp: update_order_status_def falsy_def)
qed

text \<open>
  C3, as amended. A request whose target status is neither \<open>delivered\<close> nor \<open>cancelled\<close>
  is answered 400 and changes nothing; any response other than 200 changes nothing; a
  200 response has set the status of exactly one stored order, the first whose \<open>_id\<close> is
  the requested id, to \<open>delivered\<close> or \<open>cancelled\<close>, whatever that order's status was
  before, and returns that order; and a request with one of the two target statuses and
  the id of a stored order is answered 200.
\<close>

theorem update_order_status_effect:
  "(up_status req \<notin> {Some ''delivered'', Some ''cancelled''} \<longrightarrow>
      update_order_status cast req db = ((400, Message False ''Invalid data''), db)) \<and>
   (fst (fst (update_order_status cast req db)) \<noteq> 200 \<longrightarrow>
      snd (update_order_status cast req db) = db) \<and>
   (fst (fst (update_order_status cast req db)) = 200 \<longrightarrow>
      (\<exists>st i oid pre x post. up_status req = Some st \<and> st \<in> {''delivered'', ''cancelled''} \<and>
         up_orderId req = Some i \<and> cast i = Some oid \<and>
         re_orders db = pre @ x # post \<and> ro_id x = oid \<and> oid \<notin> set (map ro_id pre) \<and>
         update_order_status cast req db =
           ((200, Order_updated (x\<lparr>ro_status := st\<rparr>)),
            db\<lparr>re_orders := pre @ x\<lparr>ro_status := st\<rparr> # post\<rparr>))) \<and>
   (up_status req = Some st' \<and> st' \<in> {''delivered'', ''cancelled''} \<and>
    up_orderId req = Some i' \<and> i' \<noteq> [] \<and> cast i' = Some oid' \<and>
    oid' \<in> set (map ro_id (re_orders db)) \<longrightarrow>
      fst (fst (update_order_status cast req db)) = 200)"
proof (intro conjI impI)
  assume "up_status req \<notin> {Some ''delivered'', Some ''cancelled''}"
  then show "update_order_status cast req db = ((400, Message False ''Invalid data''), db)"
    by (rule update_bad_status)
next
  assume "fst (fst (update_order_status cast req db)) \<noteq> 200"
  then show "snd (update_order_status cast req db) = db" by (rule update_not_ok)
next
  assume "fst (fst (update_order_status cast req db)) = 200"
  then show "\<exists>st i oid pre x post. up_status req = Some st \<and> st \<in> {''delivered'', ''cancelled''} \<and>
         up_orderId req = Some i \<and> cast i = Some oid \<and>
         re_orders db = pre @ x # post \<and> ro_id x = oid \<and> oid \<notin> set (map ro_id pre) \<and>
         update_order_status cast req db =
           ((200, Order_updated (x\<lparr>ro_status := st\<rparr>)),
            db\<lparr>re_orders := pre @ x\<lparr>ro_status := st\<rparr> # post\<rparr>)"
    by (rule update_ok)
next
  assume "up_status req = Some st' \<and> st' \<in> {''delivered'', ''cancelled''} \<and>
    up_orderId req = Some i' \<and> i' \<noteq> [] \<and> cast i' = Some oid' \<and>
    oid' \<in> set (map ro_id (re_orders db))"
  then show "fst (fst (update_order_status cast req db)) = 200"
    using update_applies [of req st' i' cast oid' db] by blast
qed

theorem update_order_status_effect_witness:
  "map ro_id (re_orders demo_pending_db) = [''o1''] \<and>
   fst (fst (update_order_status Some deliver_req demo_pending_db)) = 200 \<and>
   (\<exists>st i oid pre x post. up_status deliver_req = Some st \<and>
      st \<in> {''delivered'', ''cancelled''} \<and>
      up_orderId deliver_req = Some i \<and> Some i = Some oid \<and>
      re_orders demo_pending_db = pre @ x # post \<and> ro_id x = oid \<and>
      oid \<notin> set (map ro_id pre) \<and>
      update_order_status Some deliver_req demo_pending_db =
        ((200, Order_updated (x\<lparr>ro_status := st\<rparr>)),
         demo_pending_db\<lparr>re_orders := pre @ x\<lparr>ro_status := st\<rparr> # post\<rparr>))"
proof -
  have ids: "map ro_id (re_orders demo_pending_db) = [''o1'']"
    by (simp add: demo_pending_db_def save_order_def demo_save_req_def demo_cart_def
          falsy_def empty_re_db_def)
  note t = update_order_status_effect [where req = deliver_req and cast = Some
      and db = demo_pending_db and st' = "''delivered''" and i' = "''o1''" and oid' = "''o1''"]
  have ok: "fst (fst (update_order_status Some deliver_req demo_pending_db)) = 200"
    using t [THEN conjunct2, THEN conjunct2, THEN conjunct2] ids
    by (simp add: deliver_req_def)
  from t [THEN conjunct2, THEN conjunct2, THEN conjunct1, THEN mp, OF ok] ids ok
  show ?thesis by (intro conjI)
qed


text \<open>
  C3 as stated fails: an order that is already \<open>delivered\<close> is moved on to \<open>cancelled\<close>.
  The order is the one save-order stored for the example request.
\<close>

theorem update_order_status_counterexample:
  "map ro_status (re_orders demo_pending_db) = [''pending''] \<and>
   map ro_status (re_orders (snd (update_order_status Some deliver_req demo_pending_db))) =
     [''delivered''] \<and>
   fst (fst (update_order_status Some cancel_req
               (snd (update_order_status Some deliver_req demo_pending_db)))) = 200 \<and>
   map ro_status (re_orders (snd (update_order_status Some cancel_req
               (snd (update_order_status Some deliver_req demo_pending_db))))) =
     [''cancelled'']"
  by (simp add: demo_pending_db_def save_order_def demo_save_req_def demo_cart_def falsy_def
        empty_re_db_def update_order_status_def deliver_req_def cancel_req_def)

section \<open>Accounts: signup and login\<close>

lemma findOne_user_None:
  "findOne_user phone users = None \<longleftrightarrow> (\<forall>u \<in> set users. Some (user_phone u) \<noteq> phone)"
  by (cases phone) (auto simp: findOne_user_def find_None_iff)

lemma findOne_owner_None:
  "findOne_owner phone owners = None \<longleftrightarrow> (\<forall>w \<in> set owners. Some (owner_phone w) \<noteq> phone)"
  by (cases phone) (auto simp: findOne_owner_def find_None_iff)

lemma falsy_the: "\<not> falsy x \<Longrightarrow> x = Some (the x)"
  by (cases x) (simp_all add: falsy_def)

lemma save_user_fresh:
  "no_user (Some (user_phone u)) users \<Longrightarrow> save_user u users = Some (users @ [u])"
  by (auto simp: save_user_def no_user_def)

lemma save_owner_fresh:
  "no_owner (Some (owner_phone w)) owners \<Longrightarrow> save_owner w owners = Some (owners @ [w])"
  by (auto simp: save_owner_def no_owner_def)

lemma re_user_signup_taken:
  "\<not> no_user (su_phone req) (re_users db) \<Longrightarrow>
     fst (fst (re_user_signup new_id req db)) = 400 \<and> snd (re_user_signup new_id req db) = db"
  by (auto simp: re_user_signup_def no_user_def findOne_user_None [symmetric] split: option.splits)

lemma re_user_signup_new:
  assumes "no_user (su_phone req) (re_users db)"
    and "\<not> falsy (su_name req)" and "\<not> falsy (su_phone req)" and "\<not> falsy (su_password req)"
  shows "fst (fst (re_user_signup new_id req db)) = 200 \<and>
     (\<exists>u. snd (re_user_signup new_id req db) = db\<lparr>re_users := re_users db @ [u]\<rparr> \<and>
          Some (user_phone u) = su_phone req)"
proof -
  let ?u = "\<lparr>user_id = new_id, user_name = su_name req, user_phone = the (su_phone req),
             user_password = su_password req\<rparr>"
  from assms(3) have p: "su_phone req = Some (user_phone ?u)" by (simp add: falsy_the)
  with assms(1) have "save_user ?u (re_users db) = Some (re_users db @ [?u])"
    by (simp add: save_user_fresh)
  moreover from assms(1) have "findOne_user (su_phone req) (re_users db) = None"
    by (simp add: findOne_user_None no_user_def)
  ultimately have "re_user_signup new_id req db =
      ((200, Message True ''Signup successful''), db\<lparr>re_users := re_users db @ [?u]\<rparr>)"
    using assms(2-4) by (simp add: re_user_signup_def)
  with p show ?thesis by auto
qed

lemma re_user_signup_distinct:
  "distinct (map user_phone (re_users db)) \<Longrightarrow>
     distinct (map user_phone (re_users (snd (re_user_signup new_id req db))))"
  by (auto simp: re_user_signup_def save_user_def split: option.splits if_splits)

lemma cp_user_signup_taken:
  "\<not> no_user (su_phone req) (cp_users db) \<Longrightarrow>
     fst (fst (cp_user_signup new_id req db)) = 400 \<and> snd (cp_user_signup new_id req db) = db"
  by (auto simp: cp_user_signup_def no_user_def findOne_user_None [symmetric] split: option.splits)

lemma cp_user_signup_new:
  assumes "no_user (su_phone req) (cp_users db)"
    and "\<not> falsy (su_name req)" and "\<not> falsy (su_phone req)" and "\<not> falsy (su_password req)"
  shows "fst (fst (cp_user_signup new_id req db)) = 200 \<and>
     (\<exists>u. snd (cp_user_signup new_id req db) = db\<lparr>cp_users := cp_users db @ [u]\<rparr> \<and>
          Some (user_phone u) = su_phone req)"
proof -
  let ?u = "\<lparr>user_id = new_id, user_name = su_name req, user_phone = the (su_phone req),
             user_password = su_password req\<rparr>"
  from assms(3) have p: "su_phone req = Some (user_phone ?u)" by (simp add: falsy_the)
  with assms(1) have "save_user ?u (cp_users db) = Some (cp_users db @ [?u])"
    by (simp add: save_user_fresh)
  moreover from assms(1) have "findOne_user (su_phone req) (cp_users db) = None"
    by (simp add: findOne_user_None no_user_def)
  ultimately have "cp_user_signup new_id req db =
      ((200, Cp_message True ''User registered successfully''), db\<lparr>cp_users := cp_users db @ [?u]\<rparr>)"
    using assms(2-4) by (simp add: cp_user_signup_def)
  with p show ?thesis by auto
qed

lemma cp_user_signup_distinct:
  "distinct (map user_phone (cp_users db)) \<Longrightarrow>
     distinct (map user_phone (cp_users (snd (cp_user_signup new_id req db))))"
  by (auto simp: cp_user_signup_def save_user_def split: option.splits if_splits)

lemma owner_signup_taken:
  "\<not> no_owner (ow_phone req) (cp_owners db) \<Longrightarrow>
     fst (fst (owner_signup new_id req db)) = 400 \<and> snd (owner_signup new_id req db) = db"
  by (auto simp: owner_signup_def no_owner_def findOne_owner_None [symmetric] split: option.splits)

lemma owner_signup_new:
  assumes "no_owner (ow_phone req) (cp_owners db)"
    and "\<not> falsy (ow_phone req)" and "\<not> falsy (ow_password req)"
  shows "fst (fst (owner_signup new_id req db)) = 200 \<and>
     (\<exists>w. snd (owner_signup new_id req db) = db\<lparr>cp_owners := cp_owners db @ [w]\<rparr> \<and>
          Some (owner_phone w) = ow_phone req)"
proof -
  let ?w = "\<lparr>owner_id = new_id, owner_phone = the (ow_phone req),
             owner_password = the (ow_password req)\<rparr>"
  from assms(2) have p: "ow_phone req = Some (owner_phone ?w)" by (simp add: falsy_the)
  with assms(1) have "save_owner ?w (cp_owners db) = Some (cp_owners db @ [?w])"
    by (simp add: save_owner_fresh)
  moreover from assms(1) have "findOne_owner (ow_phone req) (cp_owners db) = None"
    by (simp add: findOne_owner_None no_owner_def)
  ultimately have "owner_signup new_id req db =
      ((200, Cp_message True ''Owner registered successfully''), db\<lparr>cp_owners := cp_owners db @ [?w]\<rparr>)"
    using assms(2-3) by (simp add: owner_signup_def)
  with p show ?thesis by auto
qed

lemma owner_signup_distinct:
  "distinct (map owner_phone (cp_owners db)) \<Longrightarrow>
     distinct (map owner_phone (cp_owners (snd (owner_signup new_id req db))))"
  by (auto simp: owner_signup_def save_owner_def split: option.splits if_splits)


lemma demo_user_db_eq:
  "demo_user_db = \<lparr>re_users = [\<lparr>user_id = ''u1'', user_name = Some ''Asha'', user_phone = ''98'',
                                user_password = Some ''pw''\<rparr>], re_orders = []\<rparr>"
  by (simp add: demo_user_db_def re_user_signup_def demo_signup_def falsy_def empty_re_db_def
        findOne_user_def save_user_def)

lemma demo_cp_db_eq:
  "demo_cp_db = \<lparr>cp_owners = [\<lparr>owner_id = ''w1'', owner_phone = ''70'', owner_password = ''s3''\<rparr>],
      cp_users = [\<lparr>user_id = ''u1'', user_name = Some ''Asha'', user_phone = ''98'', user_password = Some ''pw''\<rparr>],
      cp_orders = []\<rparr>"
  by (simp add: demo_cp_db_def owner_signup_def cp_user_signup_def demo_signup_def demo_owner_req_def
        empty_cp_db_def falsy_def findOne_user_def findOne_owner_def save_user_def save_owner_def)



text \<open>
  C5. For each of the three signup handlers: when an account with the request's phone is
  stored, the response is 400 and the database is unchanged; when none is stored and every
  required field is present and not empty, the response is 200 and the database has
  exactly one more account, with that phone; and if the stored phones are pairwise
  different before the request, they are so after it.
\<close>

theorem signup_phone_unique:
  "(\<not> no_user (su_phone req) (re_users rdb) \<longrightarrow>
      fst (fst (re_user_signup new_id req rdb)) = 400 \<and> snd (re_user_signup new_id req rdb) = rdb) \<and>
   (no_user (su_phone req) (re_users rdb) \<and>
    \<not> falsy (su_name req) \<and> \<not> falsy (su_phone req) \<and> \<not> falsy (su_password req) \<longrightarrow>
      fst (fst (re_user_signup new_id req rdb)) = 200 \<and>
      (\<exists>u. snd (re_user_signup new_id req rdb) = rdb\<lparr>re_users := re_users rdb @ [u]\<rparr> \<and>
           Some (user_phone u) = su_phone req)) \<and>
   (distinct (map user_phone (re_users rdb)) \<longrightarrow>
      distinct (map user_phone (re_users (snd (re_user_signup new_id req rdb))))) \<and>
   (\<not> no_user (su_phone req) (cp_users cdb) \<longrightarrow>
      fst (fst (cp_user_signup new_id' req cdb)) = 400 \<and> snd (cp_user_signup new_id' req cdb) = cdb) \<and>
   (no_user (su_phone req) (cp_users cdb) \<and>
    \<not> falsy (su_name req) \<and> \<not> falsy (su_phone req) \<and> \<not> falsy (su_password req) \<longrightarrow>
      fst (fst (cp_user_signup new_id' req cdb)) = 200 \<and>
      (\<exists>u. snd (cp_user_signup new_id' req cdb) = cdb\<lparr>cp_users := cp_users cdb @ [u]\<rparr> \<and>
           Some (user_phone u) = su_phone req)) \<and>
   (distinct (map user_phone (cp_users cdb)) \<longrightarrow>
      distinct (map user_phone (cp_users (snd (cp_user_signup new_id' req cdb))))) \<and>
   (\<not> no_owner (ow_phone oreq) (cp_owners cdb) \<longrightarrow>
      fst (fst (owner_signup new_id' oreq cdb)) = 400 \<and> snd (owner_signup new_id' oreq cdb) = cdb) \<and>
   (no_owner (ow_phone oreq) (cp_owners cdb) \<and>
    \<not> falsy (ow_phone oreq) \<and> \<not> falsy (ow_password oreq) \<longrightarrow>
      fst (fst (owner_signup new_id' oreq cdb)) = 200 \<and>
      (\<exists>w. snd (owner_signup new_id' oreq cdb) = cdb\<lparr>cp_owners := cp_owners cdb @ [w]\<rparr> \<and>
           Some (owner_phone w) = ow_phone oreq)) \<and>
   (distinct (map owner_phone (cp_owners cdb)) \<longrightarrow>
      distinct (map owner_phone (cp_owners (snd (owner_signup new_id' oreq cdb)))))"
proof (intro conjI impI)
  assume "\<not> no_user (su_phone req) (re_users rdb)"
  then show "fst (fst (re_user_signup new_id req rdb)) = 400"
    and "snd (re_user_signup new_id req rdb) = rdb"
    by (simp_all add: re_user_signup_taken)
next
  assume "no_user (su_phone req) (re_users rdb) \<and>
    \<not> falsy (su_name req) \<and> \<not> falsy (su_phone req) \<and> \<not> falsy (su_password req)"
  then show "fst (fst (re_user_signup new_id req rdb)) = 200"
    and "\<exists>u. snd (re_user_signup new_id req rdb) = rdb\<lparr>re_users := re_users rdb @ [u]\<rparr> \<and>
           Some (user_phone u) = su_phone req"
    using re_user_signup_new [of req rdb new_id] by simp_all
next
  assume "distinct (map user_phone (re_users rdb))"
  then show "distinct (map user_phone (re_users (snd (re_user_signup new_id req rdb))))"
    by (rule re_user_signup_distinct)
next
  assume "\<not> no_user (su_phone req) (cp_users cdb)"
  then show "fst (fst (cp_user_signup new_id' req cdb)) = 400"
    and "snd (cp_user_signup new_id' req cdb) = cdb"
    by (simp_all add: cp_user_signup_taken)
next
  assume "no_user (su_phone req) (cp_users cdb) \<and>
    \<not> falsy (su_name req) \<and> \<not> falsy (su_phone req) \<and> \<not> falsy (su_password req)"
  then show "fst (fst (cp_user_signup new_id' req cdb)) = 200"
    and "\<exists>u. snd (cp_user_signup new_id' req cdb) = cdb\<lparr>cp_users := cp_users cdb @ [u]\<rparr> \<and>
           Some (user_phone u) = su_phone req"
    using cp_user_signup_new [of req cdb new_id'] by simp_all
next
  assume "distinct (map user_phone (cp_users cdb))"
  then show "distinct (map user_phone (cp_users (snd (cp_user_signup new_id' req cdb))))"
    by (rule cp_user_signup_distinct)
next
  assume "\<not> no_owner (ow_phone oreq) (cp_owners cdb)"
  then show "fst (fst (owner_signup new_id' oreq cdb)) = 400"
    and "snd (owner_signup new_id' oreq cdb) = cdb"
    by (simp_all add: owner_signup_taken)
next
  assume "no_owner (ow_phone oreq) (cp_owners cdb) \<and>
    \<not> falsy (ow_phone oreq) \<and> \<not> falsy (ow_password oreq)"
  then show "fst (fst (owner_signup new_id' oreq cdb)) = 200"
    and "\<exists>w. snd (owner_signup new_id' oreq cdb) = cdb\<lparr>cp_owners := cp_owners cdb @ [w]\<rparr> \<and>
           Some (owner_phone w) = ow_phone oreq"
    using owner_signup_new [of oreq cdb new_id'] by simp_all
next
  assume "distinct (map owner_phone (cp_owners cdb))"
  then show "distinct (map owner_phone (cp_owners (snd (owner_signup new_id' oreq cdb))))"
    by (rule owner_signup_distinct)
qed

lemma demo_user_db_users: "map user_phone (re_users demo_user_db) = [''98'']"
  by (simp add: demo_user_db_def re_user_signup_def demo_signup_def falsy_def empty_re_db_def
        findOne_user_def save_user_def)

theorem signup_phone_unique_witness:
  "no_user (su_phone demo_signup) (re_users empty_re_db) \<and>
   fst (fst (re_user_signup ''u1'' demo_signup empty_re_db)) = 200 \<and>
   map user_phone (re_users demo_user_db) = [''98''] \<and>
   \<not> no_user (su_phone demo_signup) (re_users demo_user_db) \<and>
   fst (fst (re_user_signup ''u2'' demo_signup demo_user_db)) = 400 \<and>
   snd (re_user_signup ''u2'' demo_signup demo_user_db) = demo_user_db"
proof -
  have a: "no_user (su_phone demo_signup) (re_users empty_re_db)"
    by (simp add: no_user_def empty_re_db_def)
  have f: "\<not> falsy (su_name demo_signup) \<and> \<not> falsy (su_phone demo_signup) \<and>
           \<not> falsy (su_password demo_signup)"
    by (simp add: demo_signup_def falsy_def)
  have b: "\<not> no_user (su_phone demo_signup) (re_users demo_user_db)"
    using demo_user_db_users by (auto simp: no_user_def demo_signup_def)
  have 1: "fst (fst (re_user_signup ''u1'' demo_signup empty_re_db)) = 200"
    using signup_phone_unique [of demo_signup empty_re_db "''u1''", THEN conjunct2, THEN conjunct1]
      a f by simp
  have 2: "fst (fst (re_user_signup ''u2'' demo_signup demo_user_db)) = 400 \<and>
           snd (re_user_signup ''u2'' demo_signup demo_user_db) = demo_user_db"
    using signup_phone_unique [of demo_signup demo_user_db "''u2''", THEN conjunct1] b by simp
  from a 1 demo_user_db_users b 2 show ?thesis by simp
qed



text \<open>
  C4, as amended. The stored password and the password of the request are compared as
  they are. On the Chat Point backend an owner or user login answers 404 when no account
  has the phone, 401 when the account found has another password and 200 otherwise. On
  the Rent Easy backend the login answers 401 in both failing cases and 200 otherwise.
\<close>

theorem login_status:
  "(no_owner (ow_phone oreq) (cp_owners cdb) \<longrightarrow> fst (owner_login oreq cdb) = 404) \<and>
   (findOne_owner (ow_phone oreq) (cp_owners cdb) = Some w \<longrightarrow>
      fst (owner_login oreq cdb) = (if Some (owner_password w) = ow_password oreq then 200 else 401)) \<and>
   (no_user (lg_phone req) (cp_users cdb) \<longrightarrow> fst (cp_user_login req cdb) = 404) \<and>
   (findOne_user (lg_phone req) (cp_users cdb) = Some u \<longrightarrow>
      fst (cp_user_login req cdb) = (if user_password u = lg_password req then 200 else 401)) \<and>
   (no_user (lg_phone req) (re_users rdb) \<longrightarrow> fst (re_user_login req rdb) = 401) \<and>
   (findOne_user (lg_phone req) (re_users rdb) = Some v \<longrightarrow>
      fst (re_user_login req rdb) = (if user_password v = lg_password req then 200 else 401))"
  by (simp add: owner_login_def cp_user_login_def re_user_login_def no_owner_def no_user_def
        findOne_user_None [symmetric] findOne_owner_None [symmetric])

theorem login_status_witness:
  "fst (owner_login wrong_owner_req demo_cp_db) = 401 \<and>
   fst (cp_user_login right_login demo_cp_db) = 200 \<and>
   fst (cp_user_login unknown_login demo_cp_db) = 404 \<and>
   fst (re_user_login right_login demo_user_db) = 200 \<and>
   fst (re_user_login wrong_login demo_user_db) = 401"
proof -
  let ?w = "\<lparr>owner_id = ''w1'', owner_phone = ''70'', owner_password = ''s3''\<rparr>"
  let ?u = "\<lparr>user_id = ''u1'', user_name = Some ''Asha'', user_phone = ''98'',
             user_password = Some ''pw''\<rparr>"
  have w: "findOne_owner (ow_phone wrong_owner_req) (cp_owners demo_cp_db) = Some ?w"
    by (simp add: demo_cp_db_eq wrong_owner_req_def findOne_owner_def)
  have u: "findOne_user (lg_phone right_login) (cp_users demo_cp_db) = Some ?u"
    by (simp add: demo_cp_db_eq right_login_def findOne_user_def)
  have n: "no_user (lg_phone unknown_login) (cp_users demo_cp_db)"
    by (simp add: demo_cp_db_eq unknown_login_def no_user_def)
  have r: "findOne_user (lg_phone right_login) (re_users demo_user_db) = Some ?u"
    by (simp add: demo_user_db_eq right_login_def findOne_user_def)
  have r': "findOne_user (lg_phone wrong_login) (re_users demo_user_db) = Some ?u"
    by (simp add: demo_user_db_eq wrong_login_def findOne_user_def)
  note t = login_status [where cdb = demo_cp_db and rdb = demo_user_db]
  have 1: "fst (owner_login wrong_owner_req demo_cp_db) = 401"
    using t [where oreq = wrong_owner_req and w = ?w, THEN conjunct2, THEN conjunct1] w
    by (simp add: wrong_owner_req_def)
  have 2: "fst (cp_user_login right_login demo_cp_db) = 200"
    using t [where req = right_login and u = ?u, THEN conjunct2, THEN conjunct2, THEN conjunct2,
             THEN conjunct1] u
    by (simp add: right_login_def)
  have 3: "fst (cp_user_login unknown_login demo_cp_db) = 404"
    using t [where req = unknown_login, THEN conjunct2, THEN conjunct2, THEN conjunct1] n
    by simp
  have 4: "fst (re_user_login right_login demo_user_db) = 200"
    using t [where req = right_login and v = ?u, THEN conjunct2, THEN conjunct2, THEN conjunct2,
             THEN conjunct2, THEN conjunct2] r
    by (simp add: right_login_def)
  have 5: "fst (re_user_login wrong_login demo_user_db) = 401"
    using t [where req = wrong_login and v = ?u, THEN conjunct2, THEN conjunct2, THEN conjunct2,
             THEN conjunct2, THEN conjunct2] r'
    by (simp add: wrong_login_def)
  from 1 2 3 4 5 show ?thesis by simp
qed

text \<open>
  C4 as stated fails on the Rent Easy backend: with no account stored at all, the login
  answers 401, not 404.
\<close>

theorem login_status_counterexample:
  "re_users empty_re_db = [] \<and> fst (re_user_login unknown_login empty_re_db) = 401"
  by (simp add: empty_re_db_def re_user_login_def findOne_user_def unknown_login_def)


section \<open>Order retrieval\<close>

lemma mset_sort_date_desc: "mset (sort_date_desc f xs) = mset xs"
  by (simp add: sort_date_desc_def)

lemma sorted_sort_date_desc: "sorted_wrt (\<lambda>a b. f b \<le> f a) (sort_date_desc f xs)"
proof -
  have "sorted (map f (sort_key f xs))" by (rule sorted_sort_key)
  then have "sorted_wrt (\<lambda>a b. f a \<le> f b) (sort_key f xs)" by (simp add: sorted_map)
  then show ?thesis by (simp add: sort_date_desc_def sorted_wrt_rev)
qed

text \<open>
  C6. The delivery-orders endpoint returns exactly the stored orders whose status is
  \<open>pending\<close>, and the two by-user endpoints, given an id that casts to an ObjectId,
  return exactly the stored orders of that user (as multisets: every stored order as
  often as it is stored); each list is in descending order of date.
\<close>

theorem order_retrieval:
  "(\<exists>os. delivery_orders rdb = (200, Orders os) \<and>
         mset os = filter_mset (\<lambda>x. ro_status x = ''pending'') (mset (re_orders rdb)) \<and>
         sorted_wrt (\<lambda>a b. ro_date b \<le> ro_date a) os) \<and>
   (\<not> falsy x_user_id \<and> cast (the x_user_id) = Some uid \<longrightarrow>
      (\<exists>os. my_orders cast x_user_id rdb = (200, Orders os) \<and>
           mset os = filter_mset (\<lambda>x. ro_userId x = uid) (mset (re_orders rdb)) \<and>
           sorted_wrt (\<lambda>a b. ro_date b \<le> ro_date a) os)) \<and>
   (cast' userId = Some uid' \<longrightarrow>
      (\<exists>os. get_orders cast' userId cdb = (200, Cp_orders os) \<and>
           mset os = filter_mset (\<lambda>x. co_userId x = Some uid') (mset (cp_orders cdb)) \<and>
           sorted_wrt (\<lambda>a b. co_date b \<le> co_date a) os))"
  by (simp add: delivery_orders_def my_orders_def get_orders_def mset_sort_date_desc
        sorted_sort_date_desc)


lemma save_order_demo:
  "save_order Some oid t demo_save_req db =
     ((200, Order_saved oid ''Order saved!''),
      db\<lparr>re_orders := re_orders db @ [demo_order oid t ''pending'']\<rparr>)"
  by (simp add: save_order_def demo_save_req_def demo_cart_def falsy_def first_key_def
        demo_order_def)

lemma demo_order_status_update [simp]:
  "(demo_order oid t st)\<lparr>ro_status := st'\<rparr> = demo_order oid t st'"
  by (simp add: demo_order_def)

lemma demo_order_fields [simp]:
  "ro_id (demo_order oid t st) = oid" "ro_status (demo_order oid t st) = st"
  "ro_date (demo_order oid t st) = t" "ro_userId (demo_order oid t st) = ''u1''"
  by (simp_all add: demo_order_def)

lemma demo_orders_db_reached:
  "snd (update_order_status Some deliver_req
          (snd (save_order Some ''o3'' 7 demo_save_req
             (snd (save_order Some ''o2'' 9 demo_save_req
                (snd (save_order Some ''o1'' 5 demo_save_req empty_re_db))))))) = demo_orders_db"
  by (simp add: save_order_demo update_order_status_def deliver_req_def falsy_def
        empty_re_db_def demo_orders_db_def)

theorem order_retrieval_witness:
  "(\<exists>os. delivery_orders demo_orders_db = (200, Orders os) \<and> map ro_id os = [''o2'', ''o3'']) \<and>
   (\<exists>os. my_orders Some (Some ''u1'') demo_orders_db = (200, Orders os) \<and>
         map ro_date os = [9, 7, 5])"
proof -
  from order_retrieval [of demo_orders_db "Some ''u1''" Some "''u1''", THEN conjunct1]
  obtain os where "delivery_orders demo_orders_db = (200, Orders os)" 
    and "sorted_wrt (\<lambda>a b. ro_date b \<le> ro_date a) os"
    by (elim exE conjE)
  have 1: "delivery_orders demo_orders_db =
      (200, Orders [demo_order ''o2'' 9 ''pending'', demo_order ''o3'' 7 ''pending''])"
    by (simp add: delivery_orders_def demo_orders_db_def sort_date_desc_def)
  have 2: "my_orders Some (Some ''u1'') demo_orders_db =
      (200, Orders [demo_order ''o2'' 9 ''pending'', demo_order ''o3'' 7 ''pending'',
                    demo_order ''o1'' 5 ''delivered''])"
    by (simp add: my_orders_def demo_orders_db_def sort_date_desc_def falsy_def)
  from 1 2 show ?thesis by simp
qed

section \<open>Chat Point: parsing the location\<close>

lemma bitlen_powi:
  assumes "0 < (p::int)"
  shows "(2::rat) powi (bitlen p - 1) \<le> of_int p \<and> of_int p < (2::rat) powi bitlen p"
proof -
  from bitlen_bounds [OF assms]
  have a: "2 ^ nat (bitlen p - 1) \<le> p" and b: "p < 2 ^ nat (bitlen p)" by simp_all
  from assms have g: "1 \<le> bitlen p" by (auto simp: bitlen_alt_def)
  from a have "(of_int (2 ^ nat (bitlen p - 1)) :: rat) \<le> of_int p" by (simp only: of_int_le_iff)
  then have 1: "(2::rat) powi (bitlen p - 1) \<le> of_int p"
    using g by (simp add: power_int_def)
  from b have "(of_int p :: rat) < of_int (2 ^ nat (bitlen p))" by (simp only: of_int_less_iff)
  then have 2: "of_int p < (2::rat) powi bitlen p"
    using g by (simp add: power_int_def)
  from 1 2 show ?thesis ..
qed

lemma floor_log2_bounds:
  assumes "0 < a"
  shows "2 powi floor_log2 a \<le> a \<and> a < 2 powi (floor_log2 a + 1)"
proof -
  obtain p q where pq: "quotient_of a = (p, q)" by (cases "quotient_of a")
  then have q: "0 < q" by (rule quotient_of_denom_pos)
  from pq have a: "a = of_int p / of_int q" by (rule quotient_of_div)
  with assms q have p: "0 < p" by (simp add: zero_less_divide_iff)
  let ?bp = "bitlen p" and ?bq = "bitlen q"
  let ?e = "?bp - ?bq"
  from bitlen_powi [OF p] have p1: "(2::rat) powi (?bp - 1) \<le> of_int p"
    and p2: "of_int p < (2::rat) powi ?bp" by simp_all
  from bitlen_powi [OF q] have q1: "(2::rat) powi (?bq - 1) \<le> of_int q"
    and q2: "of_int q < (2::rat) powi ?bq" by simp_all
  have pos: "\<And>k. (0::rat) < 2 powi k" by simp
  from p q have pr: "(0::rat) < of_int p" and qr: "(0::rat) < of_int q" by simp_all
  have "0 < of_int q * (2::rat) powi (?bq - 1)"
    using qr pos [of "?bq - 1"] by (rule mult_pos_pos)
  with q1 pr have "(of_int p :: rat) / of_int q \<le> of_int p / 2 powi (?bq - 1)"
    by (intro divide_left_mono) simp_all
  then have "a \<le> of_int p / 2 powi (?bq - 1)" by (simp only: a)
  also have "\<dots> < 2 powi ?bp / 2 powi (?bq - 1)"
    using p2 pos [of "?bq - 1"] by (simp add: divide_strict_right_mono)
  also have "\<dots> = 2 powi (?e + 1)"
    by (simp add: power_int_diff [symmetric] algebra_simps)
  finally have up: "a < 2 powi (?e + 1)" .
  have "(2::rat) powi (?e - 1) = 2 powi (?bp - 1) / 2 powi ?bq"
    by (simp add: power_int_diff [symmetric] algebra_simps)
  also have "\<dots> \<le> of_int p / 2 powi ?bq"
    using p1 pos [of ?bq] by (simp add: divide_right_mono)
  also have "\<dots> \<le> a"
  proof -
    have "0 < (2::rat) powi ?bq * of_int q"
      using pos [of ?bq] qr by (rule mult_pos_pos)
    with q2 pr have "(of_int p :: rat) / 2 powi ?bq \<le> of_int p / of_int q"
      by (intro divide_left_mono) simp_all
    then show ?thesis by (simp only: a)
  qed
  finally have lo: "2 powi (?e - 1) \<le> a" .
  show ?thesis
  proof (cases "a < 2 powi ?e")
    case True
    with pq have "floor_log2 a = ?e - 1" by (simp add: floor_log2_def)
    with lo True show ?thesis by simp
  next
    case False
    with pq have "floor_log2 a = ?e" by (simp add: floor_log2_def)
    with up False show ?thesis by simp
  qed
qed

lemma powi_less_iff: "(2::rat) powi i < 2 powi j \<longleftrightarrow> i < j"
proof
  assume l: "(2::rat) powi i < 2 powi j"
  show "i < j"
  proof (rule ccontr)
    assume "\<not> i < j"
    then have "j \<le> i" by simp
    then have "(2::rat) powi j \<le> 2 powi i" by (rule power_int_increasing) simp
    with l show False by simp
  qed
next
  assume "i < j"
  then show "(2::rat) powi i < 2 powi j" by (rule power_int_strict_increasing) simp
qed

lemma powi_le_iff: "(2::rat) powi i \<le> 2 powi j \<longleftrightarrow> i \<le> j"
  using powi_less_iff [of j i] by (auto simp: not_less [symmetric])

lemma floor_log2_eq:
  assumes "2 powi e \<le> a" and "a < 2 powi (e + 1)"
  shows "floor_log2 a = e"
proof -
  have "(0::rat) < 2 powi e" by simp
  then have a: "0 < a" using assms(1) by (rule less_le_trans)
  from floor_log2_bounds [OF a] have l: "2 powi floor_log2 a \<le> a"
    and u: "a < 2 powi (floor_log2 a + 1)" by simp_all
  from l assms(2) have "(2::rat) powi floor_log2 a < 2 powi (e + 1)" by (rule le_less_trans)
  then have "floor_log2 a < e + 1" by (simp only: powi_less_iff)
  moreover from assms(1) u have "(2::rat) powi e < 2 powi (floor_log2 a + 1)"
    by (rule le_less_trans)
  then have "e < floor_log2 a + 1" by (simp only: powi_less_iff)
  ultimately show ?thesis by simp
qed

lemma round_half_even_int: "round_half_even (of_int n) = n"
  by (simp add: round_half_even_def)

lemma round_half_even_ge: "\<lfloor>r\<rfloor> \<le> round_half_even r"
  by (simp add: round_half_even_def Let_def)

lemma to_number_exact:
  assumes q: "q = of_int m * 2 powi k" and m: "m \<noteq> 0" "\<bar>m\<bar> < 2 ^ 53"
    and k: "- 1074 \<le> k" "k \<le> 971"
  shows "to_number q = Num q"
proof -
  let ?a = "\<bar>q\<bar>"
  have pos: "\<And>i. (0::rat) < 2 powi i" by simp
  have a: "?a = of_int \<bar>m\<bar> * 2 powi k" by (simp add: q abs_mult)
  from m(1) have a0: "0 < ?a" by (simp add: q)
  then have q0: "q \<noteq> 0" by auto
  let ?e = "floor_log2 ?a"
  from floor_log2_bounds [OF a0] have lo: "2 powi ?e \<le> ?a" by simp
  from m(2) have "(of_int \<bar>m\<bar> :: rat) < of_int (2 ^ 53)" by (simp only: of_int_less_iff)
  then have "(of_int \<bar>m\<bar> :: rat) < 2 powi 53" by simp
  then have "?a < 2 powi 53 * 2 powi k" unfolding a using pos [of k] by (simp add: mult_strict_right_mono)
  also have "\<dots> = 2 powi (k + 53)" by (simp add: power_int_add)
  finally have hi: "?a < 2 powi (k + 53)" .
  from lo hi have "(2::rat) powi ?e < 2 powi (k + 53)" by (rule le_less_trans)
  then have e: "?e < k + 53" by (simp only: powi_less_iff)
  let ?e' = "max ?e (- 1022)"
  let ?d = "k - (?e' - 52)"
  from e k(1) have d: "0 \<le> ?d" by simp
  have "?a / 2 powi (?e' - 52) = of_int \<bar>m\<bar> * 2 powi ?d"
    unfolding a by (simp add: power_int_diff)
  also have "\<dots> = of_int (\<bar>m\<bar> * 2 ^ nat ?d)"
    using d by (simp add: power_int_def)
  finally have r: "round_half_even (?a / 2 powi (?e' - 52)) = \<bar>m\<bar> * 2 ^ nat ?d"
    by (simp only: round_half_even_int)
  have i: "(of_int (\<bar>m\<bar> * 2 ^ nat ?d) :: rat) = of_int \<bar>m\<bar> * 2 powi ?d"
    using d by (simp add: power_int_def)
  have "of_int (\<bar>m\<bar> * 2 ^ nat ?d) * 2 powi (?e' - 52) =
      of_int \<bar>m\<bar> * ((2::rat) powi ?d * 2 powi (?e' - 52))"
    by (simp only: i mult.assoc)
  also have "(2::rat) powi ?d * 2 powi (?e' - 52) = 2 powi (?d + (?e' - 52))"
    by (rule power_int_add [symmetric]) simp
  also have "?d + (?e' - 52) = k" by simp
  finally have "of_int (\<bar>m\<bar> * 2 ^ nat ?d) * 2 powi (?e' - 52) = ?a"
    by (simp only: a)
  then have v: "of_int (round_half_even (?a / 2 powi (?e' - 52))) * 2 powi (?e' - 52) = ?a"
    by (simp only: r)
  from k(2) have "k + 53 \<le> 1024" by simp
  then have "(2::rat) powi (k + 53) \<le> 2 powi 1024" by (simp only: powi_le_iff)
  with hi have nb: "\<not> 2 powi 1024 \<le> ?a" by simp
  have "to_number q =
      (if 2 powi 1024 \<le> ?a then Infinity (q < 0) else Num (if q < 0 then - ?a else ?a))"
    by (simp only: to_number_def Let_def q0 if_False v)
  also have "\<dots> = Num (if q < 0 then - ?a else ?a)"
    using nb by (simp only: if_False)
  also have "(if q < 0 then - ?a else ?a) = q" by simp
  finally show ?thesis .
qed

lemma to_number_overflow:
  assumes "2 powi 1024 \<le> \<bar>q\<bar>"
  shows "to_number q = Infinity (q < 0)"
proof -
  let ?a = "\<bar>q\<bar>"
  have pos: "\<And>i. (0::rat) < 2 powi i" by simp
  from assms pos [of 1024] have a0: "0 < ?a" by (rule less_le_trans [rotated])
  then have q0: "q \<noteq> 0" by auto
  let ?e = "floor_log2 ?a"
  from floor_log2_bounds [OF a0] have lo: "2 powi ?e \<le> ?a" and hi: "?a < 2 powi (?e + 1)"
    by simp_all
  from assms hi have "(2::rat) powi 1024 < 2 powi (?e + 1)" by (rule le_less_trans)
  then have "1024 < ?e + 1" by (simp only: powi_less_iff)
  then have e: "1024 \<le> ?e" by simp
  then have m: "max ?e (- 1022) = ?e" by simp
  let ?u = "(2::rat) powi (?e - 52)"
  have "(2::rat) ^ 52 = 2 powi ?e / ?u" by (simp add: power_int_diff [symmetric])
  also have "\<dots> \<le> ?a / ?u" using lo pos [of "?e - 52"] by (simp add: divide_right_mono)
  finally have "(of_int (2 ^ 52) :: rat) \<le> ?a / ?u" by simp
  then have "2 ^ 52 \<le> \<lfloor>?a / ?u\<rfloor>" by (simp only: le_floor_iff)
  then have "2 ^ 52 \<le> round_half_even (?a / ?u)"
    using round_half_even_ge [of "?a / ?u"] by (rule order_trans)
  then have "(of_int (2 ^ 52) :: rat) \<le> of_int (round_half_even (?a / ?u))"
    by (simp only: of_int_le_iff)
  then have A: "of_int (2 ^ 52) * ?u \<le> of_int (round_half_even (?a / ?u)) * ?u"
    using pos [of "?e - 52"] by (intro mult_right_mono) simp_all
  have B: "of_int (2 ^ 52) * ?u = 2 powi ?e"
    by (simp add: power_int_diff)
  from e have "(2::rat) powi 1024 \<le> 2 powi ?e" by (simp only: powi_le_iff)
  then have "2 powi 1024 \<le> of_int (2 ^ 52) * ?u" by (simp only: B)
  then have big: "2 powi 1024 \<le> of_int (round_half_even (?a / ?u)) * ?u"
    using A by (rule order_trans)
  show ?thesis
    by (simp only: to_number_def Let_def q0 if_False m big if_True)
qed

text \<open>
  \<open>to_number\<close> is rounding to nearest: its finite results are doubles (an integer below
  \<open>2^53\<close> in magnitude times a power of two from \<open>2^-1074\<close> to \<open>2^971\<close>), no such
  product is nearer to the argument, and the result is an infinity exactly from
  \<open>2^1024 - 2^970\<close> on.
\<close>

lemma round_half_even_near: "\<bar>of_int (round_half_even r) - r\<bar> \<le> 1 / 2"
proof -
  from floor_correct [of r] have f: "of_int \<lfloor>r\<rfloor> \<le> r" "r < of_int \<lfloor>r\<rfloor> + 1" by simp_all
  show ?thesis
  proof (cases "r - of_int \<lfloor>r\<rfloor> < 1 / 2")
    case True
    then have "round_half_even r = \<lfloor>r\<rfloor>" by (simp add: round_half_even_def Let_def)
    with True f(1) show ?thesis by linarith
  next
    case False
    show ?thesis
    proof (cases "1 / 2 < r - of_int \<lfloor>r\<rfloor> \<or> odd \<lfloor>r\<rfloor>")
      case True
      with False have "round_half_even r = \<lfloor>r\<rfloor> + 1"
        by (auto simp: round_half_even_def Let_def)
      then have "of_int (round_half_even r) = (of_int \<lfloor>r\<rfloor> :: rat) + 1" by simp
      with False f(2) show ?thesis by linarith
    next
      case F: False
      with False have "round_half_even r = \<lfloor>r\<rfloor>"
        by (auto simp: round_half_even_def Let_def)
      with False F f(1) show ?thesis by linarith
    qed
  qed
qed

lemma round_half_even_le: "round_half_even r \<le> \<lfloor>r\<rfloor> + 1"
  by (simp add: round_half_even_def Let_def)

lemma round_half_even_nearest: "\<bar>of_int (round_half_even r) - r\<bar> \<le> \<bar>of_int j - r\<bar>"
proof (cases "j = round_half_even r")
  case True
  then show ?thesis by simp
next
  case False
  then have "1 \<le> \<bar>j - round_half_even r\<bar>" by simp
  then have "(of_int 1 :: rat) \<le> of_int \<bar>j - round_half_even r\<bar>" by (simp only: of_int_le_iff)
  then have "(1::rat) \<le> \<bar>of_int j - of_int (round_half_even r)\<bar>" by simp
  with round_half_even_near [of r] show ?thesis by linarith
qed

lemma grid_nearest:
  assumes "0 < (u::rat)"
  shows "\<bar>of_int (round_half_even (a / u)) * u - a\<bar> \<le> \<bar>of_int j * u - a\<bar>"
proof -
  have e: "of_int i * u - a = (of_int i - a / u) * u" for i
    using assms by (simp add: field_simps)
  have "\<bar>of_int (round_half_even (a / u)) - a / u\<bar> * u \<le> \<bar>of_int j - a / u\<bar> * u"
    using round_half_even_nearest [of "a / u" j] assms by (intro mult_right_mono) simp_all
  with assms show ?thesis by (simp only: e abs_mult abs_of_pos)
qed

lemma abs_diff_below: "d < g \<Longrightarrow> g \<le> a \<Longrightarrow> \<bar>g - a\<bar> \<le> \<bar>d - a\<bar>" for a :: rat
  by linarith

lemma to_number_unfold:
  assumes "q \<noteq> 0" and "e = max (floor_log2 \<bar>q\<bar>) (- 1022)" and "u = 2 powi (e - 52)"
    and "w = of_int (round_half_even (\<bar>q\<bar> / u)) * u"
  shows "to_number q =
     (if 2 powi 1024 \<le> w then Infinity (q < 0) else Num (if q < 0 then - w else w))"
  unfolding assms(2-4) by (simp only: to_number_def Let_def assms(1) if_False)

lemma to_number_nearest:
  assumes t: "to_number q = Num v" and m: "\<bar>m\<bar> < 2 ^ 53" and k: "- 1074 \<le> k"
  shows "\<bar>v - q\<bar> \<le> \<bar>of_int m * 2 powi k - q\<bar>"
proof (cases "q = 0")
  case True
  with t have "v = 0" by (simp add: to_number_def)
  with True show ?thesis by simp
next
  case q0: False
  define a where "a = \<bar>q\<bar>"
  define e where "e = max (floor_log2 \<bar>q\<bar>) (- 1022)"
  define u :: rat where "u = 2 powi (e - 52)"
  define w where "w = of_int (round_half_even (\<bar>q\<bar> / u)) * u"
  define s :: rat where "s = (if q < 0 then - 1 else 1)"
  define d :: rat where "d = of_int m * 2 powi k"
  have pos: "\<And>i. (0::rat) < 2 powi i" by simp
  from q0 have a0: "0 < a" by (simp add: a_def)
  have up: "0 < u" by (simp add: u_def)
  from t to_number_unfold [OF q0 e_def u_def w_def]
  have v: "v = (if q < 0 then - w else w)" by (simp split: if_splits)
  have s: "s * s = 1" "\<bar>s\<bar> = 1" "q = s * a" "v = s * w"
    by (simp_all add: s_def v a_def)
  have "v - q = s * (w - a)" by (simp add: s(3,4) algebra_simps)
  then have vq: "\<bar>v - q\<bar> = \<bar>w - a\<bar>" by (simp add: abs_mult s(2))
  have "s * (s * d - a) = (s * s) * d - s * a" by (simp add: algebra_simps)
  then have "d - q = s * (s * d - a)" by (simp add: s(1) s(3) [symmetric])
  then have dq: "\<bar>d - q\<bar> = \<bar>s * d - a\<bar>" by (simp add: abs_mult s(2))
  have "\<exists>j. \<bar>of_int j * u - a\<bar> \<le> \<bar>s * d - a\<bar>"
  proof (cases "e - 52 \<le> k")
    case True
    define j where "j = (if q < 0 then - m else m) * 2 ^ nat (k - (e - 52))"
    have "(2::rat) powi k = 2 powi (k - (e - 52)) * u"
      unfolding u_def by (simp add: power_int_add [symmetric])
    also have "(2::rat) powi (k - (e - 52)) = 2 ^ nat (k - (e - 52))"
      using True by (simp add: power_int_def)
    finally have "s * d = of_int j * u"
      by (simp add: d_def j_def s_def)
    then have "\<bar>of_int j * u - a\<bar> \<le> \<bar>s * d - a\<bar>" by simp
    then show ?thesis ..
  next
    case False
    then have ke: "k + 53 \<le> e" by simp
    with k have "- 1022 < e" by simp
    then have "e = floor_log2 a" by (simp add: e_def a_def max_def split: if_splits)
    with floor_log2_bounds [OF a0] have lo: "2 powi e \<le> a" by simp
    from m have "(of_int \<bar>m\<bar> :: rat) < of_int (2 ^ 53)" by (simp only: of_int_less_iff)
    then have mm: "(of_int \<bar>m\<bar> :: rat) < 2 powi 53" by simp
    have "s * d \<le> \<bar>s * d\<bar>" by simp
    also have "\<dots> = of_int \<bar>m\<bar> * 2 powi k" by (simp add: abs_mult s(2) d_def)
    also have "\<dots> < 2 powi 53 * 2 powi k"
      using mm pos [of k] by (simp add: mult_strict_right_mono)
    also have "\<dots> = 2 powi (k + 53)" by (simp add: power_int_add)
    also have "\<dots> \<le> 2 powi e" using ke by (simp only: powi_le_iff)
    finally have dl: "s * d < 2 powi e" .
    have g: "of_int (2 ^ 52) * u = 2 powi e"
      unfolding u_def by (simp add: power_int_diff)
    from dl lo have "\<bar>2 powi e - a\<bar> \<le> \<bar>s * d - a\<bar>" by (rule abs_diff_below)
    then have "\<bar>of_int (2 ^ 52) * u - a\<bar> \<le> \<bar>s * d - a\<bar>" by (simp only: g)
    then show ?thesis ..
  qed
  then obtain j where j: "\<bar>of_int j * u - a\<bar> \<le> \<bar>s * d - a\<bar>" ..
  from grid_nearest [OF up, of a j] have "\<bar>w - a\<bar> \<le> \<bar>of_int j * u - a\<bar>"
    by (simp add: w_def a_def)
  then have "\<bar>w - a\<bar> \<le> \<bar>s * d - a\<bar>" using j by (rule order_trans)
  then have "\<bar>v - q\<bar> \<le> \<bar>d - q\<bar>" by (simp only: vq dq)
  then show ?thesis by (simp only: d_def)
qed

lemma to_number_double:
  assumes t: "to_number q = Num v"
  shows "\<exists>m k. v = of_int m * 2 powi k \<and> \<bar>m\<bar> < 2 ^ 53 \<and> - 1074 \<le> k \<and> k \<le> 971"
proof (cases "q = 0")
  case True
  with t have "v = of_int 0 * 2 powi 0 \<and> \<bar>0::int\<bar> < 2 ^ 53 \<and> - 1074 \<le> (0::int) \<and> (0::int) \<le> 971"
    by (simp add: to_number_def)
  then show ?thesis by blast
next
  case q0: False
  define a where "a = \<bar>q\<bar>"
  define e where "e = max (floor_log2 \<bar>q\<bar>) (- 1022)"
  define u :: rat where "u = 2 powi (e - 52)"
  define n where "n = round_half_even (\<bar>q\<bar> / u)"
  define w where "w = of_int (round_half_even (\<bar>q\<bar> / u)) * u"
  have pos: "\<And>i. (0::rat) < 2 powi i" by simp
  from q0 have a0: "0 < a" by (simp add: a_def)
  have up: "0 < u" by (simp add: u_def)
  have wn: "w = of_int n * u" by (simp add: w_def n_def)
  from t to_number_unfold [OF q0 e_def u_def w_def]
  have v: "v = (if q < 0 then - w else w)" by (simp split: if_splits)
  from t to_number_unfold [OF q0 e_def u_def w_def]
  have nb: "\<not> 2 powi 1024 \<le> w" by (simp split: if_splits)
  have e1: "- 1022 \<le> e" and e2: "floor_log2 a \<le> e" by (simp_all add: e_def a_def)
  from floor_log2_bounds [OF a0] have lo: "2 powi floor_log2 a \<le> a"
    and "a < 2 powi (floor_log2 a + 1)" by simp_all
  moreover from e2 have "(2::rat) powi (floor_log2 a + 1) \<le> 2 powi (e + 1)"
    by (simp only: powi_le_iff)
  ultimately have hi: "a < 2 powi (e + 1)" by simp
  have "a / u < 2 powi (e + 1) / u" using hi up by (simp add: divide_strict_right_mono)
  also have "\<dots> = of_int (2 ^ 53)" unfolding u_def by (simp add: power_int_diff [symmetric])
  finally have "\<lfloor>a / u\<rfloor> < 2 ^ 53" by (simp only: floor_less_iff)
  with round_half_even_le [of "a / u"] have "round_half_even (a / u) \<le> 2 ^ 53" by linarith
  then have n1: "n \<le> 2 ^ 53" by (simp only: n_def a_def)
  from a0 up have "0 \<le> a / u" by simp
  then have "0 \<le> \<lfloor>a / u\<rfloor>" by (simp only: zero_le_floor)
  with round_half_even_ge [of "a / u"] have "0 \<le> round_half_even (a / u)" by linarith
  then have n0: "0 \<le> n" by (simp only: n_def a_def)
  have a_small: "a < 2 powi 1024"
  proof (rule ccontr)
    assume "\<not> a < 2 powi 1024"
    then have "2 powi 1024 \<le> \<bar>q\<bar>" by (simp add: a_def)
    from to_number_overflow [OF this] t show False by simp
  qed
  show ?thesis
  proof (cases "n = 2 ^ 53")
    case True
    have w2: "w = 2 powi (e + 1)"
      unfolding wn True u_def by (simp add: power_int_diff power_int_add)
    with nb have "(2::rat) powi (e + 1) < 2 powi 1024" by simp
    then have "e + 1 < 1024" by (simp only: powi_less_iff)
    then have k2: "e - 51 \<le> 971" by simp
    from e1 have k1: "- 1074 \<le> e - 51" by simp
    have w3: "w = of_int (2 ^ 52) * 2 powi (e - 51)"
      unfolding w2 by (simp add: power_int_diff power_int_add)
    define m :: int where "m = (if q < 0 then - (2 ^ 52) else 2 ^ 52)"
    have "v = of_int m * 2 powi (e - 51)" by (simp add: v w3 m_def)
    moreover have "\<bar>m\<bar> < 2 ^ 53" by (simp add: m_def)
    ultimately show ?thesis using k1 k2 by blast
  next
    case False
    with n1 have n2: "n < 2 ^ 53" by simp
    have "e \<le> 1023"
    proof (rule ccontr)
      assume "\<not> e \<le> 1023"
      then have b: "1024 \<le> e" by simp
      with e1 have "e = floor_log2 a" by (simp add: e_def a_def max_def split: if_splits)
      with lo have "2 powi e \<le> a" by simp
      moreover from b have "(2::rat) powi 1024 \<le> 2 powi e" by (simp only: powi_le_iff)
      ultimately show False using a_small by simp
    qed
    then have k2: "e - 52 \<le> 971" by simp
    from e1 have k1: "- 1074 \<le> e - 52" by simp
    define m :: int where "m = (if q < 0 then - n else n)"
    have "v = of_int m * 2 powi (e - 52)" by (simp add: v wn m_def u_def)
    moreover have "\<bar>m\<bar> < 2 ^ 53" using n0 n2 by (simp add: m_def)
    ultimately show ?thesis using k1 k2 by blast
  qed
qed


lemma grid_near:
  assumes "0 < (u::rat)"
  shows "\<bar>of_int (round_half_even (a / u)) * u - a\<bar> \<le> u / 2"
proof -
  have e: "of_int i * u - a = (of_int i - a / u) * u" for i
    using assms by (simp add: field_simps)
  have "\<bar>of_int (round_half_even (a / u)) - a / u\<bar> * u \<le> 1 / 2 * u"
    using round_half_even_near [of "a / u"] assms by (intro mult_right_mono) simp_all
  with assms show ?thesis by (simp only: e abs_mult abs_of_pos)
qed

lemma round_half_even_up:
  assumes "of_int z - 1 / 2 \<le> r" and "even z"
  shows "z \<le> round_half_even r"
proof (cases "z \<le> \<lfloor>r\<rfloor>")
  case True
  with round_half_even_ge [of r] show ?thesis by linarith
next
  case False
  from assms(1) have "of_int (z - 1) \<le> r" by simp
  then have "z - 1 \<le> \<lfloor>r\<rfloor>" by (simp only: le_floor_iff)
  with False have f: "\<lfloor>r\<rfloor> = z - 1" by simp
  with assms(2) have o: "odd \<lfloor>r\<rfloor>" by simp
  from f have "(of_int \<lfloor>r\<rfloor> :: rat) = of_int z - 1" by simp
  with assms(1) have "\<not> r - of_int \<lfloor>r\<rfloor> < 1 / 2" by linarith
  with o have "round_half_even r = \<lfloor>r\<rfloor> + 1" by (auto simp: round_half_even_def Let_def)
  with f show ?thesis by simp
qed

lemma to_number_Infinity_iff:
  "to_number q = Infinity b \<longleftrightarrow> b = (q < 0) \<and> 2 powi 1024 - 2 powi 970 \<le> \<bar>q\<bar>"
proof (cases "q = 0")
  case True
  have "\<not> (2::rat) powi 1024 - 2 powi 970 \<le> 0" by (simp add: power_int_def)
  with True show ?thesis by (simp add: to_number_def)
next
  case q0: False
  define a where "a = \<bar>q\<bar>"
  define e where "e = max (floor_log2 \<bar>q\<bar>) (- 1022)"
  define u :: rat where "u = 2 powi (e - 52)"
  define w where "w = of_int (round_half_even (\<bar>q\<bar> / u)) * u"
  have pos: "\<And>i. (0::rat) < 2 powi i" by simp
  from q0 have a0: "0 < a" by (simp add: a_def)
  have up: "0 < u" by (simp add: u_def)
  note tn = to_number_unfold [OF q0 e_def u_def w_def]
  have half: "u / 2 = 2 powi (e - 53)" by (simp add: u_def power_int_diff)
  show ?thesis
  proof
    assume i: "to_number q = Infinity b"
    with tn have b: "b = (q < 0)" and big: "2 powi 1024 \<le> w" by (simp_all split: if_splits)
    have "2 powi 1024 - 2 powi 970 \<le> a"
    proof (cases "1024 \<le> e")
      case True
      then have "e = floor_log2 a" by (simp add: e_def a_def max_def split: if_splits)
      with floor_log2_bounds [OF a0] have "2 powi e \<le> a" by simp
      moreover from True have "(2::rat) powi 1024 \<le> 2 powi e" by (simp only: powi_le_iff)
      moreover have "(0::rat) < 2 powi 970" by (rule pos)
      ultimately show ?thesis by linarith
    next
      case False
      then have "e - 53 \<le> 970" by simp
      then have "(2::rat) powi (e - 53) \<le> 2 powi 970" by (simp only: powi_le_iff)
      then have h: "u / 2 \<le> 2 powi 970" by (simp only: half)
      from grid_near [OF up, of a] have "\<bar>w - a\<bar> \<le> u / 2" by (simp add: w_def a_def)
      with h big show ?thesis by linarith
    qed
    with b show "b = (q < 0) \<and> 2 powi 1024 - 2 powi 970 \<le> \<bar>q\<bar>" by (simp add: a_def)
  next
    assume "b = (q < 0) \<and> 2 powi 1024 - 2 powi 970 \<le> \<bar>q\<bar>"
    then have b: "b = (q < 0)" and l: "2 powi 1024 - 2 powi 970 \<le> a" by (simp_all add: a_def)
    show "to_number q = Infinity b"
    proof (cases "2 powi 1024 \<le> a")
      case True
      then have "2 powi 1024 \<le> \<bar>q\<bar>" by (simp only: a_def)
      from to_number_overflow [OF this] b show ?thesis by simp
    next
      case False
      then have hi: "a < 2 powi (1023 + 1)" by simp
      have "(2::rat) powi 1023 \<le> 2 powi 1024 - 2 powi 970" by (simp add: power_int_def)
      from this l have lo: "2 powi 1023 \<le> a" by (rule order_trans)
      from floor_log2_eq [OF lo hi] have "e = 1023" by (simp add: e_def a_def)
      then have u: "u = 2 powi 971" by (simp add: u_def)
      have "(of_int (2 ^ 53) :: rat) - 1 / 2 = (2 powi 1024 - 2 powi 970) / 2 powi 971"
        by (simp add: power_int_def)
      also have "\<dots> \<le> a / 2 powi 971" using l by (intro divide_right_mono) simp_all
      finally have "of_int (2 ^ 53) - 1 / 2 \<le> a / u" by (simp only: u)
      then have "2 ^ 53 \<le> round_half_even (a / u)" by (rule round_half_even_up) simp
      then have "(of_int (2 ^ 53) :: rat) \<le> of_int (round_half_even (a / u))"
        by (simp only: of_int_le_iff)
      then have "of_int (2 ^ 53) * u \<le> of_int (round_half_even (a / u)) * u"
        using up by (intro mult_right_mono) simp_all
      moreover have "of_int (2 ^ 53) * u = 2 powi 1024" by (simp add: u power_int_def)
      ultimately have "2 powi 1024 \<le> w" by (simp only: w_def a_def)
      with tn b show ?thesis by simp
    qed
  qed
qed

lemma to_number_not_NaN: "to_number q \<noteq> NaN"
  by (simp add: to_number_def Let_def)

text \<open>Examples: a value that is a double, one that is rounded, one that overflows.\<close>

lemma to_number_25_2: "to_number (25 / 2) = Num (25 / 2)"
  by (rule to_number_exact [of _ 25 "- 1"]) (simp_all add: power_int_def power_divide)

lemma to_number_309_4: "to_number (- (309 / 4)) = Num (- (309 / 4))"
  by (rule to_number_exact [of _ "- 309" "- 2"]) (simp_all add: power_int_def power_divide)

lemma to_number_tenth: "to_number (1 / 10) = Num (3602879701896397 / 36028797018963968)"
proof -
  have e: "floor_log2 (1 / 10) = - 4"
    by (rule floor_log2_eq) (simp_all add: power_int_def power_divide)
  have u: "(2::rat) powi (- 56) = 1 / 72057594037927936"
    by (simp add: power_int_def power_divide)
  have f: "\<lfloor>(36028797018963968::rat) / 5\<rfloor> = 7205759403792793"
    by (rule floor_unique) simp_all
  have r: "round_half_even (36028797018963968 / 5) = 7205759403792794"
    unfolding round_half_even_def Let_def f by simp
  have big: "\<not> (2::rat) powi 1024 \<le> 3602879701896397 / 36028797018963968"
    by (simp add: power_int_def)
  show ?thesis
    by (simp add: to_number_def Let_def e u r big)
qed


lemma to_number_huge: "to_number (10 ^ 309) = Infinity False"
  using to_number_overflow [of "10 ^ 309"] by (simp add: power_int_def)

lemma digit_range: "d < 10 \<Longrightarrow> d \<in> {0, 1, 2, 3, 4, 5, 6, 7, 8, 9 :: nat}"
  by auto

lemma is_digit_digit_char: "d < 10 \<Longrightarrow> is_digit (digit_char d)"
  using digit_range [of d] by (auto simp: is_digit_def digit_char_def)

lemma digit_val_digit_char: "d < 10 \<Longrightarrow> digit_val (digit_char d) = d"
  using digit_range [of d] by (auto simp: digit_val_def digit_char_def)

lemma is_digit_iff: "is_digit c \<longleftrightarrow> c \<in> set ''0123456789''"
  by (simp add: is_digit_def)

lemma not_digit_chars:
  "\<not> is_digit CHR ''.''" "\<not> is_digit CHR ''-''" "\<not> is_digit CHR ''+''" "\<not> is_digit CHR ''I''"
  by (simp_all add: is_digit_def)

lemma not_space_digit: "is_digit c \<Longrightarrow> \<not> is_space c"
  by (auto simp: is_digit_def is_space_def)

lemma digits_val_foldl:
  "list_all (\<lambda>d. d < 10) ds \<Longrightarrow>
     foldl (\<lambda>n c. 10 * n + digit_val c) a (map digit_char ds) = foldl (\<lambda>n d. 10 * n + d) a ds"
  by (induction ds arbitrary: a) (simp_all add: digit_val_digit_char)

lemma digits_val_map: "list_all (\<lambda>d. d < 10) ds \<Longrightarrow> digits_val (map digit_char ds) = nat_of_digits ds"
  by (simp add: digits_val_def nat_of_digits_def digits_val_foldl)

lemma all_digits: "list_all (\<lambda>d. d < 10) ds \<Longrightarrow> \<forall>c \<in> set (map digit_char ds). is_digit c"
  by (auto simp: list_all_iff is_digit_digit_char)

lemma takeWhile_digits:
  "list_all (\<lambda>d. d < 10) ds \<Longrightarrow> (r = [] \<or> \<not> is_digit (hd r)) \<Longrightarrow>
     takeWhile is_digit (map digit_char ds @ r) = map digit_char ds \<and>
     dropWhile is_digit (map digit_char ds @ r) = r"
  using all_digits [of ds]
  by (cases r) (auto simp: takeWhile_append dropWhile_append)

lemma digits_val_Nil: "digits_val [] = 0" "nat_of_digits [] = 0"
  by (simp_all add: digits_val_def nat_of_digits_def)

lemma take_sign_show:
  assumes "r \<noteq> []" and "hd r \<noteq> CHR ''-''" and "hd r \<noteq> CHR ''+''"
  shows "take_sign (show_sign s @ r) = (s = Minus_sign, r)"
  using assms by (cases s; cases r) (simp_all add: take_sign_def)

lemma exponent_factor_show:
  assumes "wf_exponent ex"
  shows "exponent_factor (show_exponent ex) = exponent_value ex"
proof (cases ex)
  case None
  then show ?thesis by (simp add: exponent_factor_def)
next
  case (Some t)
  then obtain capital s ds where ex: "ex = Some (capital, s, ds)" by (cases t) auto
  with assms have ds: "ds \<noteq> []" "list_all (\<lambda>d. d < 10) ds" by simp_all
  let ?D = "map digit_char ds"
  from ds obtain d ds' where c: "ds = d # ds'" by (cases ds) auto
  with ds(2) have "is_digit (hd ?D)" by (simp add: is_digit_digit_char)
  then have h: "?D \<noteq> []" "hd ?D \<noteq> CHR ''-''" "hd ?D \<noteq> CHR ''+''"
    using ds(1) not_digit_chars by auto
  from takeWhile_digits [OF ds(2), of "[]"] have t: "takeWhile is_digit ?D = ?D" by simp
  have ts: "take_sign (show_sign s @ ?D) = (s = Minus_sign, ?D)"
    using h by (rule take_sign_show)
  have "exponent_factor (c # show_sign s @ ?D) =
      (if s = Minus_sign then 1 / 10 ^ nat_of_digits ds else 10 ^ nat_of_digits ds)"
    if "c = CHR ''e'' \<or> c = CHR ''E''" for c
  proof -
    have "exponent_factor (c # show_sign s @ ?D) =
        (let (neg, r) = take_sign (show_sign s @ ?D); ds = takeWhile is_digit r
         in if ds = [] then 1
            else if neg then 1 / 10 ^ digits_val ds else 10 ^ digits_val ds)"
      using that by (simp only: exponent_factor_def list.case if_True)
    also have "\<dots> = (if s = Minus_sign then 1 / 10 ^ digits_val ?D else 10 ^ digits_val ?D)"
      using h(1) by (simp only: ts Let_def prod.case t if_False)
    finally show ?thesis by (simp only: digits_val_map [OF ds(2)])
  qed
  from this [of "if capital then CHR ''E'' else CHR ''e''"] ex show ?thesis by simp
qed

lemma show_exponent_head: "show_exponent ex = [] \<or> \<not> is_digit (hd (show_exponent ex))"
  by (cases ex) (auto simp: is_digit_def split: if_splits)

lemma show_exponent_no_point: "show_exponent ex = [] \<or> hd (show_exponent ex) \<noteq> CHR ''.''"
  by (cases ex) (auto split: if_splits)

text \<open>The fraction and what follows it, as \<open>parseFloat\<close> reads them after the digits.\<close>

lemma fraction_read:
  assumes "wf_fraction ip fr"
  shows "(case show_fraction fr @ show_exponent ex of
            [] \<Rightarrow> ([], show_fraction fr @ show_exponent ex)
          | c # cs \<Rightarrow> if c = CHR ''.''
                     then (takeWhile is_digit cs, dropWhile is_digit cs)
                     else ([], show_fraction fr @ show_exponent ex)) =
         (case fr of None \<Rightarrow> [] | Some fp \<Rightarrow> map digit_char fp, show_exponent ex)"
proof (cases fr)
  case None
  then show ?thesis
    using show_exponent_no_point [of ex] by (cases "show_exponent ex") auto
next
  case (Some fp)
  with assms have "list_all (\<lambda>d. d < 10) fp" by simp
  from takeWhile_digits [OF this show_exponent_head [of ex]] Some show ?thesis by simp
qed

lemma parseFloat_show_decimal:
  assumes "wf_decimal x"
  shows "parseFloat (show_decimal x) = to_number (decimal_value x)"
proof -
  obtain s ip fr ex where x: "x = Decimal s ip fr ex" by (cases x)
  let ?I = "map digit_char ip"
  let ?F = "case fr of None \<Rightarrow> [] | Some fp \<Rightarrow> map digit_char fp"
  let ?r = "show_fraction fr @ show_exponent ex"
  let ?U = "?I @ ?r"
  from assms x have di: "list_all (\<lambda>d. d < 10) ip" and wf: "wf_fraction ip fr"
    and we: "wf_exponent ex" by simp_all
  have df: "list_all (\<lambda>d. d < 10) (case fr of None \<Rightarrow> [] | Some fp \<Rightarrow> fp)"
    using wf by (cases fr) simp_all
  have F: "?F = map digit_char (case fr of None \<Rightarrow> [] | Some fp \<Rightarrow> fp)"
    by (cases fr) simp_all
  have hd_ok: "?U \<noteq> [] \<and> (is_digit (hd ?U) \<or> hd ?U = CHR ''.'')"
  proof (cases ip)
    case Nil
    with wf obtain fp where "fr = Some fp" by (cases fr) auto
    with Nil show ?thesis by simp
  next
    case (Cons d ds)
    with di show ?thesis by (simp add: is_digit_digit_char)
  qed
  then have h: "?U \<noteq> []" "hd ?U \<noteq> CHR ''-''" "hd ?U \<noteq> CHR ''+''" "hd ?U \<noteq> CHR ''I''"
    "\<not> is_space (hd ?U)"
    using not_digit_chars not_space_digit [of "hd ?U"] by (auto simp: is_space_def)
  have sp: "dropWhile is_space (show_sign s @ ?U) = show_sign s @ ?U"
    using h(1,5) by (cases s; cases ?U) (simp_all add: is_space_def)
  have sg: "take_sign (dropWhile is_space (show_sign s @ ?U)) = (s = Minus_sign, ?U)"
    unfolding sp using h(1-3) by (rule take_sign_show)
  have p: "\<not> prefix ''Infinity'' ?U"
    using h(1,4) by (cases ?U) simp_all
  have r: "?r = [] \<or> \<not> is_digit (hd ?r)"
    using show_exponent_head [of ex] by (cases fr) (simp_all add: not_digit_chars)
  from takeWhile_digits [OF di r]
  have t: "takeWhile is_digit ?U = ?I" "dropWhile is_digit ?U = ?r" by simp_all
  note fr = fraction_read [OF wf, of ex]
  have nz: "\<not> (?I = [] \<and> ?F = [])"
    using wf by (cases fr) auto
  have lenF: "length ?F = (case fr of None \<Rightarrow> 0 | Some fp \<Rightarrow> length fp)"
    by (cases fr) simp_all
  have fv: "of_nat (digits_val ?F) / 10 ^ length ?F = fraction_value fr"
    using wf by (cases fr) (simp_all add: digits_val_map digits_val_Nil)
  have "parseFloat (show_sign s @ ?U) =
      to_number (if s = Minus_sign
                 then - ((of_nat (digits_val ?I) + of_nat (digits_val ?F) / 10 ^ length ?F) *
                         exponent_factor (show_exponent ex))
                 else (of_nat (digits_val ?I) + of_nat (digits_val ?F) / 10 ^ length ?F) *
                      exponent_factor (show_exponent ex))"
    using nz by (simp only: parseFloat_def sg p t fr Let_def prod.case if_False)
  also have "\<dots> = to_number (decimal_value (Decimal s ip fr ex))"
    by (simp add: fv digits_val_map di exponent_factor_show [OF we])
  finally show ?thesis by (simp add: x)
qed

text \<open>Characters of a rendered decimal.\<close>

lemma set_show_sign: "set (show_sign s) \<subseteq> set ''+-''"
  by (cases s) auto

lemma set_digit_chars:
  "list_all (\<lambda>d. d < 10) ds \<Longrightarrow> set (map digit_char ds) \<subseteq> set ''0123456789''"
  using all_digits [of ds] by (auto simp: is_digit_def)

lemma set_show_decimal:
  assumes "wf_decimal x"
  shows "set (show_decimal x) \<subseteq> set ''+-.0123456789eE''"
proof -
  obtain s ip fr ex where x: "x = Decimal s ip fr ex" by (cases x)
  from assms x have di: "list_all (\<lambda>d. d < 10) ip" and wf: "wf_fraction ip fr"
    and we: "wf_exponent ex" by simp_all
  have 1: "set (show_sign s) \<subseteq> set ''+-.0123456789eE''"
    using set_show_sign [of s] by auto
  have 2: "set (map digit_char ip) \<subseteq> set ''+-.0123456789eE''"
    using set_digit_chars [OF di] by auto
  have 3: "set (show_fraction fr) \<subseteq> set ''+-.0123456789eE''"
  proof (cases fr)
    case None
    then show ?thesis by simp
  next
    case (Some fp)
    with wf have "list_all (\<lambda>d. d < 10) fp" by simp
    from set_digit_chars [OF this] Some show ?thesis by auto
  qed
  have 4: "set (show_exponent ex) \<subseteq> set ''+-.0123456789eE''"
  proof (cases ex)
    case None
    then show ?thesis by simp
  next
    case (Some t)
    then obtain capital es ds where e: "ex = Some (capital, es, ds)" by (cases t) auto
    with we have "list_all (\<lambda>d. d < 10) ds" by simp
    from set_digit_chars [OF this] set_show_sign [of es] e show ?thesis by auto
  qed
  from 1 2 3 4 show ?thesis unfolding x show_decimal.simps set_append by blast
qed

lemma find_first_absent:
  "c \<in> set sep \<Longrightarrow> c \<notin> set s \<Longrightarrow> find_first sep s = None"
proof (induction s)
  case Nil
  then show ?case by auto
next
  case (Cons a s)
  have "\<not> prefix sep (a # s)"
  proof
    assume "prefix sep (a # s)"
    then have "set sep \<subseteq> set (a # s)" by (rule set_mono_prefix)
    with Cons.prems show False by auto
  qed
  with Cons show ?case by simp
qed

lemma find_first_char:
  "c \<notin> set x \<Longrightarrow> find_first [c] (x @ c # r) = Some (x, r)"
  by (induction x) auto

lemma find_first_after:
  assumes "c2 \<notin> set a" and "c1 \<noteq> c2"
  shows "find_first (c1 # c2 # r) (a @ (c1 # c2 # r) @ y) = Some (a, y)"
  using assms(1)
proof (induction a)
  case Nil
  then show ?case by simp
next
  case (Cons h t)
  then have ih: "find_first (c1 # c2 # r) (t @ (c1 # c2 # r) @ y) = Some (t, y)" by simp
  have "\<not> prefix (c1 # c2 # r) (h # t @ (c1 # c2 # r) @ y)"
    using Cons.prems assms(2) by (cases t) auto
  with ih show ?case by simp
qed

lemma split_absent:
  "sep \<noteq> [] \<Longrightarrow> find_first sep s = None \<Longrightarrow> split s sep = [s]"
  by (simp add: split.simps)

lemma split_found:
  "sep \<noteq> [] \<Longrightarrow> find_first sep s = Some (a, b) \<Longrightarrow> split s sep = a # split b sep"
  by (simp add: split.simps)

lemma parse_location_form:
  assumes "wf_decimal x" and "wf_decimal y"
  shows "parse_location (''Lat: '' @ show_decimal x @ '', Lng: '' @ show_decimal y) =
     Inr (to_number (decimal_value x), to_number (decimal_value y))"
proof -
  let ?X = "show_decimal x" and ?Y = "show_decimal y"
  let ?loc = "''Lat: '' @ ?X @ '', Lng: '' @ ?Y"
  from set_show_decimal [OF assms(1)] set_show_decimal [OF assms(2)]
  have cx: "CHR ''a'' \<notin> set ?X" "CHR '','' \<notin> set ?X" "CHR ''n'' \<notin> set ?X"
    and cy: "CHR ''a'' \<notin> set ?Y" "CHR ''g'' \<notin> set ?Y"
    by auto
  have "find_first ''Lat: '' ?loc = Some ([], ?X @ '', Lng: '' @ ?Y)" by simp
  moreover have "find_first ''Lat: '' (?X @ '', Lng: '' @ ?Y) = None"
    using cx cy by (intro find_first_absent [of "CHR ''a''"]) auto
  ultimately have 1: "split ?loc ''Lat: '' = [[], ?X @ '', Lng: '' @ ?Y]"
    by (simp add: split_found split_absent)
  have "find_first '','' (?X @ CHR '','' # '' Lng: '' @ ?Y) = Some (?X, '' Lng: '' @ ?Y)"
    using cx(2) by (rule find_first_char)
  then have 2: "at_index (split (?X @ '', Lng: '' @ ?Y) '','') 0 = Some ?X"
    by (simp add: split_found at_index_def)
  have "find_first ''Lng: '' ((''Lat: '' @ ?X @ '', '') @ ''Lng: '' @ ?Y) =
      Some (''Lat: '' @ ?X @ '', '', ?Y)"
    using cx by (intro find_first_after) auto
  moreover have "find_first ''Lng: '' ?Y = None"
    using cy by (intro find_first_absent [of "CHR ''g''"]) auto
  ultimately have 3: "split ?loc ''Lng: '' = [''Lat: '' @ ?X @ '', '', ?Y]"
    by (simp add: split_found split_absent)
  from 1 have a1: "at_index (split ?loc ''Lat: '') 1 = Some (?X @ '', Lng: '' @ ?Y)"
    by (simp add: at_index_def)
  from 3 have a3: "at_index (split ?loc ''Lng: '') 1 = Some ?Y"
    by (simp add: at_index_def)
  show ?thesis
    by (simp only: parse_location_def a1 a3 2 option.case Let_def parseFloat_opt_def
          parseFloat_show_decimal [OF assms(1)] parseFloat_show_decimal [OF assms(2)])
qed

section \<open>Chat Point: placing an order\<close>

lemma location_of_Some:
  "location_of req = Some loc \<Longrightarrow>
     \<exists>address. or_address req = Some address \<and> ar_location address = Some loc"
  by (auto simp: location_of_def opt_chain_def split: option.splits)

lemma post_order_incomplete:
  "\<not> passes_checks req \<Longrightarrow>
     post_order cast new_id now req db =
       ((400, Cp_message False ''Incomplete order data or location missing''), db)"
  by (auto simp: post_order_def passes_checks_def)

lemma post_order_throws:
  assumes "passes_checks req" and "location_of req = Some loc"
    and "parse_location loc = Inl err"
  shows "post_order cast new_id now req db = ((500, Cp_message False ''Failed to save order''), db)"
proof -
  from location_of_Some [OF assms(2)] obtain address where
    "or_address req = Some address" "ar_location address = Some loc" by blast
  with assms(1,3) show ?thesis
    by (simp add: post_order_def passes_checks_def Let_def)
qed

lemma post_order_NaN:
  assumes "passes_checks req" and "location_of req = Some loc"
    and "parse_location loc = Inr (v, NaN)"
  shows "post_order cast new_id now req db = ((500, Cp_message False ''Failed to save order''), db)"
proof -
  from location_of_Some [OF assms(2)] obtain address where
    "or_address req = Some address" "ar_location address = Some loc" by blast
  with assms(1,3) show ?thesis
    by (simp add: post_order_def passes_checks_def Let_def valid_order_def split: option.splits)
qed

lemma post_order_parsed:
  assumes "passes_checks req" and "location_of req = Some loc"
    and "parse_location loc = Inr (lat_v, lng_v)"
  shows "post_order cast new_id now req db =
     (case (if falsy (or_userId req) then Some None
            else map_option Some (cast (the (or_userId req)))) of
        None \<Rightarrow> ((500, Cp_message False ''Failed to save order''), db)
      | Some userId \<Rightarrow>
          if \<not> valid_order (built_order new_id now req userId lat_v lng_v)
          then ((500, Cp_message False ''Failed to save order''), db)
          else ((200, Order_placed ''Order placed successfully''
                        (built_order new_id now req userId lat_v lng_v)),
                db\<lparr>cp_orders := cp_orders db @ [built_order new_id now req userId lat_v lng_v]\<rparr>))"
proof -
  from location_of_Some [OF assms(2)] obtain address where
    "or_address req = Some address" "ar_location address = Some loc" by blast
  note f = this assms(1,3)
  show ?thesis
  proof (cases "falsy (or_userId req)")
    case True
    with f show ?thesis
      by (simp add: post_order_def passes_checks_def Let_def built_order_def)
  next
    case False
    show ?thesis
    proof (cases "cast (the (or_userId req))")
      case None
      with f False show ?thesis
        by (simp add: post_order_def passes_checks_def Let_def built_order_def)
    next
      case (Some uid)
      with f False show ?thesis
        by (simp add: post_order_def passes_checks_def Let_def built_order_def)
    qed
  qed
qed

lemma post_order_ok:
  assumes "fst (fst (post_order cast new_id now req db)) = 200"
  shows "\<exists>items loc lat_v lng_v order.
     or_items req = Some items \<and> location_of req = Some loc \<and>
     parse_location loc = Inr (lat_v, lng_v) \<and>
     snd (post_order cast new_id now req db) = db\<lparr>cp_orders := cp_orders db @ [order]\<rparr> \<and>
     co_items order = map (\<lambda>name. \<lparr>cl_name = name, cl_price = 100,
                                     cl_quantity = map_of items name\<rparr>) (map fst items) \<and>
     ca_location (co_address order) = \<lparr>lat = lat_v, lng = lng_v\<rparr>"
proof -
  have pc: "passes_checks req"
    using assms post_order_incomplete [of req cast new_id now db] by (cases "passes_checks req") auto
  then obtain items where i: "or_items req = Some items"
    by (auto simp: passes_checks_def)
  from pc obtain loc where lo: "location_of req = Some loc"
    by (cases "location_of req") (auto simp: passes_checks_def location_of_def falsy_def)
  obtain lat_v lng_v where p: "parse_location loc = Inr (lat_v, lng_v)"
    using assms post_order_throws [OF pc lo, of _ cast new_id now db]
    by (cases "parse_location loc") auto
  note eq = post_order_parsed [OF pc lo p, of cast new_id now db]
  let ?c = "if falsy (or_userId req) then Some None
            else map_option Some (cast (the (or_userId req)))"
  from assms eq obtain userId where u: "?c = Some userId"
    by (cases ?c) auto
  let ?order = "built_order new_id now req userId lat_v lng_v"
  from assms eq u have v: "valid_order ?order"
    by (cases "valid_order ?order") auto
  from eq u v have "snd (post_order cast new_id now req db) =
      db\<lparr>cp_orders := cp_orders db @ [?order]\<rparr>" by simp
  moreover from i have "co_items ?order = map (\<lambda>name. \<lparr>cl_name = name, cl_price = 100,
                                     cl_quantity = map_of items name\<rparr>) (map fst items)"
    by (simp add: built_order_def Object_keys_def)
  moreover have "ca_location (co_address ?order) = \<lparr>lat = lat_v, lng = lng_v\<rparr>"
    by (simp add: built_order_def)
  ultimately show ?thesis using i lo p by blast
qed

lemma find_first_sublist:
  "sublist sep s \<Longrightarrow> find_first sep s \<noteq> None"
proof -
  assume "sublist sep s"
  then obtain a b where "s = a @ sep @ b" by (auto simp: sublist_def)
  then show ?thesis
  proof (induction a arbitrary: s)
    case Nil
    then have "prefix sep s" by simp
    then show ?case by (cases s) auto
  next
    case (Cons h t)
    then have "find_first sep (t @ sep @ b) \<noteq> None" by simp
    with Cons.prems show ?case by auto
  qed
qed

lemma find_first_None_iff: "find_first sep s = None \<longleftrightarrow> \<not> sublist sep s"
proof
  assume "find_first sep s = None"
  then show "\<not> sublist sep s" using find_first_sublist by blast
next
  assume n: "\<not> sublist sep s"
  show "find_first sep s = None"
  proof (cases "find_first sep s")
    case None
    then show ?thesis .
  next
    case (Some p)
    then obtain a b where "find_first sep s = Some (a, b)" by (cases p) auto
    then have "s = a @ sep @ b" by (rule find_first_Some)
    with n show ?thesis by (auto simp: sublist_def)
  qed
qed

lemma split_not_Nil: "sep \<noteq> [] \<Longrightarrow> split s sep \<noteq> []"
  by (cases "find_first sep s") (auto simp: split.simps)

lemma parseFloat_undefined: "parseFloat ''undefined'' = NaN"
  by (simp add: parseFloat_def take_sign_def is_space_def is_digit_def)

lemma parse_location_no_lat:
  assumes "\<not> sublist ''Lat: '' loc"
  shows "parse_location loc = Inl TypeError"
proof -
  from assms have "find_first ''Lat: '' loc = None" by (simp add: find_first_None_iff)
  then have "split loc ''Lat: '' = [loc]" by (simp add: split_absent)
  then show ?thesis by (simp add: parse_location_def at_index_def)
qed

lemma parse_location_no_lng:
  assumes "sublist ''Lat: '' loc" and "\<not> sublist ''Lng: '' loc"
  shows "\<exists>v. parse_location loc = Inr (v, NaN)"
proof -
  from assms(1) obtain a b where "find_first ''Lat: '' loc = Some (a, b)"
    using find_first_sublist [of "''Lat: ''" loc] by (cases "find_first ''Lat: '' loc") auto
  then have "split loc ''Lat: '' = a # split b ''Lat: ''" by (simp add: split_found)
  moreover obtain p ps where "split b ''Lat: '' = p # ps"
    using split_not_Nil [of "''Lat: ''" b] by (cases "split b ''Lat: ''") auto
  ultimately have 1: "at_index (split loc ''Lat: '') 1 = Some p" by (simp add: at_index_def)
  from assms(2) have "find_first ''Lng: '' loc = None" by (simp add: find_first_None_iff)
  then have "split loc ''Lng: '' = [loc]" by (simp add: split_absent)
  then have 2: "at_index (split loc ''Lng: '') 1 = None" by (simp add: at_index_def)
  show ?thesis
    by (simp only: parse_location_def 1 2 option.case Let_def parseFloat_opt_def
          parseFloat_undefined) blast
qed

text \<open>
  C10, as amended. For an order request that passes the field checks: when the location
  string does not contain \<open>Lat: \<close>, building the document throws a TypeError, the
  response is 500 and the database is unchanged; when it contains \<open>Lat: \<close> but not
  \<open>Lng: \<close>, nothing is thrown while parsing (the longitude is \<open>NaN\<close>), and the
  response is 500 with the database unchanged because the save is rejected.
\<close>

theorem post_order_location_failure:
  assumes "passes_checks req" and "location_of req = Some loc"
  shows "(\<not> sublist ''Lat: '' loc \<longrightarrow>
            parse_location loc = Inl TypeError \<and>
            post_order cast new_id now req db =
              ((500, Cp_message False ''Failed to save order''), db)) \<and>
         (sublist ''Lat: '' loc \<and> \<not> sublist ''Lng: '' loc \<longrightarrow>
            (\<exists>v. parse_location loc = Inr (v, NaN)) \<and>
            post_order cast new_id now req db =
              ((500, Cp_message False ''Failed to save order''), db))"
proof (intro conjI impI)
  assume n: "\<not> sublist ''Lat: '' loc"
  then show p: "parse_location loc = Inl TypeError" by (rule parse_location_no_lat)
  from post_order_throws [OF assms p]
  show "post_order cast new_id now req db = ((500, Cp_message False ''Failed to save order''), db)" .
next
  assume a: "sublist ''Lat: '' loc \<and> \<not> sublist ''Lng: '' loc"
  then show e: "\<exists>v. parse_location loc = Inr (v, NaN)" by (simp add: parse_location_no_lng)
  then obtain v where "parse_location loc = Inr (v, NaN)" ..
  from post_order_NaN [OF assms this]
  show "post_order cast new_id now req db = ((500, Cp_message False ''Failed to save order''), db)" .
qed

text \<open>
  C2. When the location of an order request is \<open>Lat: x, Lng: y\<close> for decimal numerals
  \<open>x\<close> and \<open>y\<close> (an optional sign, digits with an optional fraction or a fraction
  alone, an optional exponent), the parsed pair is the Number values of \<open>x\<close> and
  \<open>y\<close>: for each, the double nearest to the number the numeral denotes, an infinity
  when that is past the range of doubles. An order stored for the request has them as
  \<open>address.location.lat\<close> and \<open>address.location.lng\<close>.
\<close>

theorem post_order_location:
  assumes "wf_decimal x" and "wf_decimal y"
    and "location_of req = Some (''Lat: '' @ show_decimal x @ '', Lng: '' @ show_decimal y)"
  shows "parse_location (''Lat: '' @ show_decimal x @ '', Lng: '' @ show_decimal y) =
           Inr (to_number (decimal_value x), to_number (decimal_value y)) \<and>
         (fst (fst (post_order cast new_id now req db)) = 200 \<longrightarrow>
            (\<exists>order. cp_orders (snd (post_order cast new_id now req db)) = cp_orders db @ [order] \<and>
               lat (ca_location (co_address order)) = to_number (decimal_value x) \<and>
               lng (ca_location (co_address order)) = to_number (decimal_value y)))"
proof (intro conjI impI)
  show p: "parse_location (''Lat: '' @ show_decimal x @ '', Lng: '' @ show_decimal y) =
           Inr (to_number (decimal_value x), to_number (decimal_value y))"
    using assms(1,2) by (rule parse_location_form)
  assume "fst (fst (post_order cast new_id now req db)) = 200"
  from post_order_ok [OF this] obtain loc lat_v lng_v order where
    "location_of req = Some loc" "parse_location loc = Inr (lat_v, lng_v)"
    "snd (post_order cast new_id now req db) = db\<lparr>cp_orders := cp_orders db @ [order]\<rparr>"
    "ca_location (co_address order) = \<lparr>lat = lat_v, lng = lng_v\<rparr>"
    by blast
  with assms(3) p have "cp_orders (snd (post_order cast new_id now req db)) = cp_orders db @ [order] \<and>
      lat (ca_location (co_address order)) = to_number (decimal_value x) \<and>
      lng (ca_location (co_address order)) = to_number (decimal_value y)"
    by simp
  then show "\<exists>order. cp_orders (snd (post_order cast new_id now req db)) = cp_orders db @ [order] \<and>
      lat (ca_location (co_address order)) = to_number (decimal_value x) \<and>
      lng (ca_location (co_address order)) = to_number (decimal_value y)" ..
qed

text \<open>
  C8. An order stored by the Chat Point handler has one line per key of the submitted
  \<open>items\<close> object, in the order of the keys; every line has price 100 and, as
  quantity, the value the object holds under the line's name.
\<close>

theorem post_order_items:
  "fst (fst (post_order cast new_id now req db)) = 200 \<longrightarrow>
     (\<exists>items order. or_items req = Some items \<and>
        cp_orders (snd (post_order cast new_id now req db)) = cp_orders db @ [order] \<and>
        map cl_name (co_items order) = map fst items \<and>
        (\<forall>l \<in> set (co_items order).
           cl_price l = 100 \<and> cl_quantity l = map_of items (cl_name l) \<and> cl_quantity l \<noteq> None))"
proof
  assume "fst (fst (post_order cast new_id now req db)) = 200"
  from post_order_ok [OF this] obtain items order where i: "or_items req = Some items"
    and s: "snd (post_order cast new_id now req db) = db\<lparr>cp_orders := cp_orders db @ [order]\<rparr>"
    and c: "co_items order = map (\<lambda>name. \<lparr>cl_name = name, cl_price = 100,
                                     cl_quantity = map_of items name\<rparr>) (map fst items)"
    by blast
  from c have 1: "map cl_name (co_items order) = map fst items" by (simp add: comp_def)
  have 2: "\<forall>l \<in> set (co_items order).
           cl_price l = 100 \<and> cl_quantity l = map_of items (cl_name l) \<and> cl_quantity l \<noteq> None"
    unfolding c by (auto dest: weak_map_of_SomeI)
  from s have s': "cp_orders (snd (post_order cast new_id now req db)) = cp_orders db @ [order]"
    by simp
  from i s' 1 2 show "\<exists>items order. or_items req = Some items \<and>
        cp_orders (snd (post_order cast new_id now req db)) = cp_orders db @ [order] \<and>
        map cl_name (co_items order) = map fst items \<and>
        (\<forall>l \<in> set (co_items order).
           cl_price l = 100 \<and> cl_quantity l = map_of items (cl_name l) \<and> cl_quantity l \<noteq> None)"
    by blast
qed

lemma demo_order_req_checks: "location \<noteq> [] \<Longrightarrow> passes_checks (demo_order_req location)"
  by (simp add: passes_checks_def demo_order_req_def opt_chain_def falsy_def Object_keys_def)

lemma demo_order_req_location: "location_of (demo_order_req location) = Some location"
  by (simp add: location_of_def demo_order_req_def opt_chain_def)

lemma demo_order_req_placed:
  assumes "parse_location location = Inr (Num a, Num b)" and "location \<noteq> []"
  shows "fst (fst (post_order Some ''o1'' 5 (demo_order_req location) empty_cp_db)) = 200"
  using post_order_parsed [OF demo_order_req_checks [OF assms(2)] demo_order_req_location assms(1),
      of Some "''o1''" 5 empty_cp_db]
  by (simp add: demo_order_req_def falsy_def valid_order_def built_order_def)

theorem post_order_location_witness:
  "wf_decimal (Decimal No_sign [1, 2] (Some [5]) None) \<and>
   wf_decimal (Decimal Minus_sign [7] (Some [7, 2, 5]) (Some (False, Plus_sign, [1]))) \<and>
   location_of (demo_order_req ''Lat: 12.5, Lng: -7.725e+1'') =
     Some (''Lat: '' @ show_decimal (Decimal No_sign [1, 2] (Some [5]) None) @ '', Lng: '' @
           show_decimal (Decimal Minus_sign [7] (Some [7, 2, 5]) (Some (False, Plus_sign, [1])))) \<and>
   fst (fst (post_order Some ''o1'' 5 (demo_order_req ''Lat: 12.5, Lng: -7.725e+1'')
               empty_cp_db)) = 200 \<and>
   (\<exists>order. cp_orders (snd (post_order Some ''o1'' 5
                               (demo_order_req ''Lat: 12.5, Lng: -7.725e+1'') empty_cp_db)) =
              [order] \<and>
      lat (ca_location (co_address order)) = Num (25 / 2) \<and>
      lng (ca_location (co_address order)) = Num (- (309 / 4)))"
proof -
  let ?x = "Decimal No_sign [1, 2] (Some [5]) None"
  let ?y = "Decimal Minus_sign [7] (Some [7, 2, 5]) (Some (False, Plus_sign, [1]))"
  let ?req = "demo_order_req ''Lat: 12.5, Lng: -7.725e+1''"
  have wx: "wf_decimal ?x" and wy: "wf_decimal ?y" by simp_all
  have lo: "location_of ?req =
      Some (''Lat: '' @ show_decimal ?x @ '', Lng: '' @ show_decimal ?y)"
    by (simp add: demo_order_req_location digit_char_def)
  have vx: "to_number (decimal_value ?x) = Num (25 / 2)"
    by (simp add: nat_of_digits_def to_number_25_2)
  have vy: "to_number (decimal_value ?y) = Num (- (309 / 4))"
    by (simp add: nat_of_digits_def to_number_309_4)
  note t = post_order_location [OF wx wy lo, of Some "''o1''" 5 empty_cp_db]
  from t have "parse_location (''Lat: '' @ show_decimal ?x @ '', Lng: '' @ show_decimal ?y) =
      Inr (to_number (decimal_value ?x), to_number (decimal_value ?y))"
    by (rule conjunct1)
  then have p: "parse_location ''Lat: 12.5, Lng: -7.725e+1'' =
      Inr (Num (25 / 2), Num (- (309 / 4)))"
    unfolding vx vy by (simp add: digit_char_def)
  have ok: "fst (fst (post_order Some ''o1'' 5 ?req empty_cp_db)) = 200"
    using demo_order_req_placed [OF p] by simp
  from t [THEN conjunct2, THEN mp, OF ok] obtain order where
    "cp_orders (snd (post_order Some ''o1'' 5 ?req empty_cp_db)) = cp_orders empty_cp_db @ [order]"
    "lat (ca_location (co_address order)) = to_number (decimal_value ?x)"
    "lng (ca_location (co_address order)) = to_number (decimal_value ?y)"
    by (elim exE conjE)
  then have "cp_orders (snd (post_order Some ''o1'' 5 ?req empty_cp_db)) = [order] \<and>
      lat (ca_location (co_address order)) = Num (25 / 2) \<and>
      lng (ca_location (co_address order)) = Num (- (309 / 4))"
    unfolding vx vy by (simp add: empty_cp_db_def)
  then have "\<exists>order. cp_orders (snd (post_order Some ''o1'' 5 ?req empty_cp_db)) = [order] \<and>
      lat (ca_location (co_address order)) = Num (25 / 2) \<and>
      lng (ca_location (co_address order)) = Num (- (309 / 4))" ..
  with wx wy lo ok show ?thesis by (intro conjI)
qed

lemma demo_location_parsed:
  "parse_location ''Lat: 12.5, Lng: -77.25'' = Inr (Num (25 / 2), Num (- (309 / 4)))"
proof -
  let ?x = "Decimal No_sign [1, 2] (Some [5]) None"
  let ?y = "Decimal Minus_sign [7, 7] (Some [2, 5]) None"
  have vx: "to_number (decimal_value ?x) = Num (25 / 2)"
    by (simp add: nat_of_digits_def to_number_25_2)
  have vy: "to_number (decimal_value ?y) = Num (- (309 / 4))"
    by (simp add: nat_of_digits_def to_number_309_4)
  have "parse_location (''Lat: '' @ show_decimal ?x @ '', Lng: '' @ show_decimal ?y) =
      Inr (to_number (decimal_value ?x), to_number (decimal_value ?y))"
    by (rule parse_location_form) simp_all
  then show ?thesis unfolding vx vy by (simp add: digit_char_def)
qed

text \<open>
  A numeral too large for a double is stored as \<open>Infinity\<close>, as \<open>parseFloat\<close> returns
  it.
\<close>

lemma parse_location_overflow:
  "parse_location ''Lat: 1e309, Lng: 0'' = Inr (Infinity False, Num 0)"
proof -
  let ?x = "Decimal No_sign [1] None (Some (False, No_sign, [3, 0, 9]))"
  let ?y = "Decimal No_sign [0] None None"
  have vx: "to_number (decimal_value ?x) = Infinity False"
    using to_number_huge by (simp add: nat_of_digits_def)
  have vy: "to_number (decimal_value ?y) = Num 0"
    by (simp add: nat_of_digits_def to_number_def)
  have "parse_location (''Lat: '' @ show_decimal ?x @ '', Lng: '' @ show_decimal ?y) =
      Inr (to_number (decimal_value ?x), to_number (decimal_value ?y))"
    by (rule parse_location_form) simp_all
  then show ?thesis unfolding vx vy by (simp add: digit_char_def)
qed

theorem post_order_items_witness:
  "fst (fst (post_order Some ''o1'' 5 (demo_order_req ''Lat: 12.5, Lng: -77.25'') empty_cp_db)) = 200 \<and>
   (\<exists>order. cp_orders (snd (post_order Some ''o1'' 5 (demo_order_req ''Lat: 12.5, Lng: -77.25'')
                               empty_cp_db)) = [order] \<and>
      map cl_name (co_items order) = [''chai'', ''bun''] \<and>
      map cl_price (co_items order) = [100, 100] \<and>
      map cl_quantity (co_items order) = [Some 2, Some 1])"
proof -
  let ?req = "demo_order_req ''Lat: 12.5, Lng: -77.25''"
  have ok: "fst (fst (post_order Some ''o1'' 5 ?req empty_cp_db)) = 200"
    using demo_order_req_placed [OF demo_location_parsed] by simp
  from post_order_items [of Some "''o1''" 5 ?req empty_cp_db, THEN mp, OF ok]
  obtain items order where i: "or_items ?req = Some items"
    and s: "cp_orders (snd (post_order Some ''o1'' 5 ?req empty_cp_db)) =
            cp_orders empty_cp_db @ [order]"
    and n: "map cl_name (co_items order) = map fst items"
    and a: "\<forall>l \<in> set (co_items order).
           cl_price l = 100 \<and> cl_quantity l = map_of items (cl_name l) \<and> cl_quantity l \<noteq> None"
    by (elim exE conjE)
  from i have items: "items = [(''chai'', 2), (''bun'', 1)]"
    by (simp add: demo_order_req_def)
  from a have "map cl_price (co_items order) = map (\<lambda>l. 100) (co_items order)"
    by (intro map_cong) simp_all
  also have "\<dots> = replicate (length (map cl_name (co_items order))) 100"
    by (simp add: map_replicate_const)
  finally have pr: "map cl_price (co_items order) = [100, 100]"
    by (simp add: n items)
  from a have "map cl_quantity (co_items order) = map (map_of items) (map cl_name (co_items order))"
    by (simp add: comp_def)
  then have q: "map cl_quantity (co_items order) = [Some 2, Some 1]"
    by (simp add: n items)
  from s n pr q have "cp_orders (snd (post_order Some ''o1'' 5 ?req empty_cp_db)) = [order] \<and>
      map cl_name (co_items order) = [''chai'', ''bun''] \<and>
      map cl_price (co_items order) = [100, 100] \<and>
      map cl_quantity (co_items order) = [Some 2, Some 1]"
    by (simp add: empty_cp_db_def items)
  then have "\<exists>order. cp_orders (snd (post_order Some ''o1'' 5 ?req empty_cp_db)) = [order] \<and>
      map cl_name (co_items order) = [''chai'', ''bun''] \<and>
      map cl_price (co_items order) = [100, 100] \<and>
      map cl_quantity (co_items order) = [Some 2, Some 1]" ..
  with ok show ?thesis ..
qed

theorem post_order_location_failure_witness:
  "passes_checks (demo_order_req ''12.5, 77.25'') \<and>
   location_of (demo_order_req ''12.5, 77.25'') = Some ''12.5, 77.25'' \<and>
   \<not> sublist ''Lat: '' ''12.5, 77.25'' \<and>
   parse_location ''12.5, 77.25'' = Inl TypeError \<and>
   post_order Some ''o1'' 5 (demo_order_req ''12.5, 77.25'') empty_cp_db =
     ((500, Cp_message False ''Failed to save order''), empty_cp_db) \<and>
   passes_checks (demo_order_req ''Lat: 12.5'') \<and>
   location_of (demo_order_req ''Lat: 12.5'') = Some ''Lat: 12.5'' \<and>
   sublist ''Lat: '' ''Lat: 12.5'' \<and> \<not> sublist ''Lng: '' ''Lat: 12.5'' \<and>
   post_order Some ''o1'' 5 (demo_order_req ''Lat: 12.5'') empty_cp_db =
     ((500, Cp_message False ''Failed to save order''), empty_cp_db)"
proof -
  have c1: "passes_checks (demo_order_req ''12.5, 77.25'')"
    and c2: "passes_checks (demo_order_req ''Lat: 12.5'')"
    by (simp_all add: demo_order_req_checks)
  note l1 = demo_order_req_location [of "''12.5, 77.25''"]
  note l2 = demo_order_req_location [of "''Lat: 12.5''"]
  have n1: "\<not> sublist ''Lat: '' ''12.5, 77.25''"
    by (simp add: find_first_None_iff [symmetric])
  have y2: "sublist ''Lat: '' ''Lat: 12.5''"
    using find_first_None_iff [of "''Lat: ''" "''Lat: 12.5''"] by simp
  have n2: "\<not> sublist ''Lng: '' ''Lat: 12.5''"
    by (simp add: find_first_None_iff [symmetric])
  from post_order_location_failure [OF c1 l1, of Some "''o1''" 5 empty_cp_db] n1
  have r1: "parse_location ''12.5, 77.25'' = Inl TypeError \<and>
     post_order Some ''o1'' 5 (demo_order_req ''12.5, 77.25'') empty_cp_db =
       ((500, Cp_message False ''Failed to save order''), empty_cp_db)"
    by simp
  from post_order_location_failure [OF c2 l2, of Some "''o1''" 5 empty_cp_db] y2 n2
  have r2: "post_order Some ''o1'' 5 (demo_order_req ''Lat: 12.5'') empty_cp_db =
       ((500, Cp_message False ''Failed to save order''), empty_cp_db)"
    by simp
  from c1 l1 n1 r1 c2 l2 y2 n2 r2 show ?thesis by (intro conjI) simp_all
qed

text \<open>
  C10 as stated fails for a location with \<open>Lat: \<close> and without \<open>Lng: \<close>: the request
  passes the field checks and parsing returns a pair, with \<open>NaN\<close> as longitude; nothing
  is thrown while parsing.
\<close>

theorem post_order_location_counterexample:
  "passes_checks (demo_order_req ''Lat: 12.5'') \<and>
   location_of (demo_order_req ''Lat: 12.5'') = Some ''Lat: 12.5'' \<and>
   \<not> sublist ''Lng: '' ''Lat: 12.5'' \<and>
   parse_location ''Lat: 12.5'' = Inr (Num (25 / 2), NaN)"
proof -
  have "parse_location ''Lat: 12.5'' = Inr (Num (25 / 2), NaN)"
    by (simp add: parse_location_def split.simps at_index_def parseFloat_opt_def parseFloat_def
        take_sign_def is_space_def is_digit_def digits_val_def digit_val_def exponent_factor_def
        to_number_25_2)
  moreover have "\<not> sublist ''Lng: '' ''Lat: 12.5''"
    by (simp add: find_first_None_iff [symmetric])
  ultimately show ?thesis
    by (simp add: demo_order_req_checks demo_order_req_location)
qed

section \<open>Service worker: cache first, then network\<close>

lemma same_url_sym: "same_url a b \<longleftrightarrow> same_url b a"
  by (auto simp: same_url_def)

lemma same_url_plain: "strip_fragment u = u \<Longrightarrow> same_url u url \<longleftrightarrow> u = strip_fragment url"
  by (auto simp: same_url_def)

lemma find_filter_keep:
  "(\<And>x. P x \<Longrightarrow> Q x) \<Longrightarrow> find P (filter Q xs) = find P xs"
  by (induction xs) auto

lemma find_filter_drop:
  "(\<And>x. Q x \<Longrightarrow> \<not> P x) \<Longrightarrow> find P (filter Q xs) = None"
  by (induction xs) auto

lemma find_append_cases:
  "find P (xs @ ys) = (case find P xs of None \<Rightarrow> find P ys | Some x \<Rightarrow> Some x)"
  by (induction xs) auto

lemma cache_match_None_iff:
  "cache_match es url = None \<longleftrightarrow> (\<forall>e \<in> set es. \<not> same_url (fst e) url)"
  by (auto simp: cache_match_def find_None_iff)

lemma cache_match_first:
  assumes "\<forall>e \<in> set earlier. \<not> same_url (fst e) url" and "same_url u url"
  shows "cache_match (earlier @ (u, r) # later) url = Some r"
  using assms by (induction earlier) (simp_all add: cache_match_def)

lemma cache_match_put:
  "cache_match (cache_put u r es) url = (if same_url u url then Some r else cache_match es url)"
proof (cases "same_url u url")
  case True
  then have "find (\<lambda>e. same_url (fst e) url) (filter (\<lambda>e. \<not> same_url (fst e) u) es) = None"
    by (intro find_filter_drop) (auto simp: same_url_def)
  with True show ?thesis
    by (simp add: cache_match_def cache_put_def find_append_cases)
next
  case False
  then have "find (\<lambda>e. same_url (fst e) url) (filter (\<lambda>e. \<not> same_url (fst e) u) es) =
      find (\<lambda>e. same_url (fst e) url) es"
    by (intro find_filter_keep) (auto simp: same_url_def)
  with False show ?thesis
    by (simp add: cache_match_def cache_put_def find_append_cases split: option.splits)
qed

lemma fetch_all_Some:
  "fetch_all net urls = Some fetched \<Longrightarrow>
     map fst fetched = urls \<and>
     (\<forall>(u, r) \<in> set fetched. net \<lparr>rq_method = ''GET'', rq_url = u\<rparr> = Some r \<and> addable r)"
  by (induction urls arbitrary: fetched) (auto split: option.splits if_splits)

lemma fetch_all_Some_iff:
  "fetch_all net urls \<noteq> None \<longleftrightarrow>
     (\<forall>u \<in> set urls. \<exists>r. net \<lparr>rq_method = ''GET'', rq_url = u\<rparr> = Some r \<and> addable r)"
  by (induction urls) (auto split: option.splits)

lemma cache_match_fold_put:
  assumes "\<forall>(u, r) \<in> set fetched. f u = Some r"
    and "\<forall>u \<in> set (map fst fetched). strip_fragment u = u"
  shows "cache_match (fold (\<lambda>(url, r). cache_put url r) fetched es) url =
     (if strip_fragment url \<in> set (map fst fetched) then f (strip_fragment url)
      else cache_match es url)"
  using assms
proof (induction fetched arbitrary: es)
  case Nil
  then show ?case by simp
next
  case (Cons p ps)
  obtain u r where p: "p = (u, r)" by (cases p)
  with Cons.prems have f: "f u = Some r" and a: "\<forall>(u, r) \<in> set ps. f u = Some r"
    and s: "strip_fragment u = u" and t: "\<forall>u \<in> set (map fst ps). strip_fragment u = u"
    by auto
  from Cons.IH [OF a t, of "cache_put u r es"] p f same_url_plain [OF s, of url]
  show ?case by (auto simp: cache_match_put)
qed

lemma fold_put_fresh:
  "distinct (map (\<lambda>p. strip_fragment (fst p)) fetched) \<Longrightarrow>
     fold (\<lambda>(url, r). cache_put url r) fetched es =
       filter (\<lambda>e. strip_fragment (fst e) \<notin> set (map (\<lambda>p. strip_fragment (fst p)) fetched)) es
       @ fetched"
proof (induction fetched arbitrary: es)
  case Nil
  then show ?case by simp
next
  case (Cons p ps)
  obtain u r where p: "p = (u, r)" by (cases p)
  with Cons.prems have d: "distinct (map (\<lambda>p. strip_fragment (fst p)) ps)"
    and n: "strip_fragment u \<notin> set (map (\<lambda>p. strip_fragment (fst p)) ps)" by auto
  have "filter (\<lambda>e. strip_fragment (fst e) \<notin> set (map (\<lambda>p. strip_fragment (fst p)) ps))
          (filter (\<lambda>e. \<not> same_url (fst e) u) es) =
        filter (\<lambda>e. strip_fragment (fst e) \<notin> set (map (\<lambda>p. strip_fragment (fst p)) (p # ps))) es"
    using p by (auto simp: same_url_def intro: filter_cong)
  with Cons.IH [OF d, of "cache_put u r es"] p n show ?case
    by (simp add: cache_put_def)
qed

lemma cache_addAll_Some_iff:
  "distinct (map strip_fragment urls) \<Longrightarrow>
     cache_addAll net urls es \<noteq> None \<longleftrightarrow>
       (\<forall>u \<in> set urls. \<exists>r. net \<lparr>rq_method = ''GET'', rq_url = u\<rparr> = Some r \<and> addable r)"
  using fetch_all_Some_iff [of net urls]
  by (auto simp: cache_addAll_def split: option.splits)

lemma cache_addAll_match:
  assumes "cache_addAll net urls es = Some es'" and "\<forall>u \<in> set urls. strip_fragment u = u"
  shows "cache_match es' url =
     (if strip_fragment url \<in> set urls
      then net \<lparr>rq_method = ''GET'', rq_url = strip_fragment url\<rparr>
      else cache_match es url)"
proof -
  from assms(1) obtain fetched where f: "fetch_all net urls = Some fetched"
    and e: "es' = fold (\<lambda>(url, r). cache_put url r) fetched es"
    by (auto simp: cache_addAll_def split: option.splits if_splits)
  from fetch_all_Some [OF f] have m: "map fst fetched = urls"
    and a: "\<forall>(u, r) \<in> set fetched. net \<lparr>rq_method = ''GET'', rq_url = u\<rparr> = Some r"
    by auto
  from m assms(2) have s: "\<forall>u \<in> set (map fst fetched). strip_fragment u = u" by simp
  from cache_match_fold_put [of fetched "\<lambda>u. net \<lparr>rq_method = ''GET'', rq_url = u\<rparr>", OF a s,
      of es url] m e
  show ?thesis by simp
qed

lemma cache_addAll_fetched:
  assumes "cache_addAll net urls es = Some es'" and "u \<in> set urls"
  shows "net \<lparr>rq_method = ''GET'', rq_url = u\<rparr> \<noteq> None"
proof -
  from assms(1) have "fetch_all net urls \<noteq> None"
    by (auto simp: cache_addAll_def split: option.splits if_splits)
  then have "\<forall>u \<in> set urls. \<exists>r. net \<lparr>rq_method = ''GET'', rq_url = u\<rparr> = Some r \<and> addable r"
    by (simp only: fetch_all_Some_iff)
  with assms(2) show ?thesis by auto
qed

lemma cache_addAll_fresh:
  assumes "cache_addAll net urls [] = Some es'"
  shows "map fst es' = urls \<and>
     (\<forall>(u, r) \<in> set es'. net \<lparr>rq_method = ''GET'', rq_url = u\<rparr> = Some r)"
proof -
  from assms obtain fetched where f: "fetch_all net urls = Some fetched"
    and e: "es' = fold (\<lambda>(url, r). cache_put url r) fetched []"
    and d: "distinct (map strip_fragment urls)"
    by (auto simp: cache_addAll_def split: option.splits if_splits)
  from fetch_all_Some [OF f] have m: "map fst fetched = urls"
    and a: "\<forall>(u, r) \<in> set fetched. net \<lparr>rq_method = ''GET'', rq_url = u\<rparr> = Some r"
    by auto
  have "map (\<lambda>p. strip_fragment (fst p)) fetched = map strip_fragment (map fst fetched)"
    by (simp add: comp_def)
  with m have "map (\<lambda>p. strip_fragment (fst p)) fetched = map strip_fragment urls"
    by simp
  with d have "distinct (map (\<lambda>p. strip_fragment (fst p)) fetched)" by simp
  with e have "es' = fetched" by (simp add: fold_put_fresh)
  with m a show ?thesis by simp
qed

lemma map_of_caches_open:
  "map_of (caches_open name caches) n =
     (if n = name \<and> name \<notin> set (map fst caches) then Some [] else map_of caches n)"
proof (cases "name \<in> set (map fst caches)")
  case True
  then show ?thesis by (simp add: caches_open_def)
next
  case False
  then have "map_of caches name = None" by (simp add: map_of_eq_None_iff)
  with False show ?thesis
    by (auto simp: caches_open_def map_add_def split: option.splits)
qed

lemma map_of_opened: "map_of (caches_open name caches) name \<noteq> None"
proof (cases "name \<in> set (map fst caches)")
  case True
  then have "map_of caches name \<noteq> None" by (simp only: map_of_eq_None_iff set_map) simp
  with True show ?thesis by (simp only: map_of_caches_open) simp
next
  case False
  then show ?thesis by (simp only: map_of_caches_open) simp
qed

lemma lookup_caches_open: "lookup (caches_open name caches) n url = lookup caches n url"
proof (cases "name \<in> set (map fst caches)")
  case True
  then show ?thesis by (simp add: lookup_def map_of_caches_open)
next
  case False
  then have "map_of caches name = None" by (simp add: map_of_eq_None_iff)
  then show ?thesis by (simp add: lookup_def map_of_caches_open cache_match_def)
qed

lemma map_of_replace:
  "map_of (map (\<lambda>(name, c). if name = k then (name, v) else (name, c)) caches) n =
     (if n = k then (case map_of caches k of None \<Rightarrow> None | Some c \<Rightarrow> Some v)
      else map_of caches n)"
  by (induction caches) auto

lemma replace_absent:
  "k \<notin> set (map fst caches) \<Longrightarrow>
     map (\<lambda>(name, c). if name = k then (name, v) else (name, c)) caches = caches"
  by (induction caches) auto

lemma install_cases:
  obtains (failed) "cache_addAll net urlsToCache
                      (the (map_of (caches_open CACHE_NAME caches) CACHE_NAME)) = None"
      "install net caches = (False, caches_open CACHE_NAME caches)"
  | (fetched) entries entries' where
      "map_of (caches_open CACHE_NAME caches) CACHE_NAME = Some entries"
      "cache_addAll net urlsToCache entries = Some entries'"
      "install net caches =
         (True, map (\<lambda>(name, c). if name = CACHE_NAME then (name, entries') else (name, c))
                    (caches_open CACHE_NAME caches))"
proof -
  from map_of_opened [of CACHE_NAME caches] obtain entries where
    o: "map_of (caches_open CACHE_NAME caches) CACHE_NAME = Some entries" by auto
  show ?thesis
  proof (cases "cache_addAll net urlsToCache entries")
    case None
    with o have "install net caches = (False, caches_open CACHE_NAME caches)"
      by (simp add: install_def)
    with None o show ?thesis by (intro failed) simp_all
  next
    case (Some entries')
    with o have "install net caches =
         (True, map (\<lambda>(name, c). if name = CACHE_NAME then (name, entries') else (name, c))
                    (caches_open CACHE_NAME caches))"
      by (simp add: install_def)
    with o Some show ?thesis by (rule fetched)
  qed
qed

lemma plain_urlsToCache: "\<forall>u \<in> set urlsToCache. strip_fragment u = u"
  by (simp add: urlsToCache_def strip_fragment_def)

lemma distinct_urlsToCache: "distinct (map strip_fragment urlsToCache)"
  by (simp add: urlsToCache_def strip_fragment_def)

lemma install_fulfilled:
  "fst (install net caches) \<longleftrightarrow>
     (\<forall>u \<in> set urlsToCache. \<exists>r. net \<lparr>rq_method = ''GET'', rq_url = u\<rparr> = Some r \<and> addable r)"
proof (cases rule: install_cases [of net caches])
  case failed
  from cache_addAll_Some_iff [OF distinct_urlsToCache, of net
      "the (map_of (caches_open CACHE_NAME caches) CACHE_NAME)"] failed(1)
  have "\<not> (\<forall>u \<in> set urlsToCache.
      \<exists>r. net \<lparr>rq_method = ''GET'', rq_url = u\<rparr> = Some r \<and> addable r)"
    by simp
  with failed(2) show ?thesis by simp
next
  case (fetched entries entries')
  with cache_addAll_Some_iff [OF distinct_urlsToCache, of net entries] show ?thesis by simp
qed

lemma install_rejected:
  assumes "\<not> fst (install net caches)"
  shows "snd (install net caches) = caches_open CACHE_NAME caches"
  using assms by (cases rule: install_cases [of net caches]) simp_all

lemma lookup_opened:
  "map_of (caches_open CACHE_NAME caches) CACHE_NAME = Some entries \<Longrightarrow>
     cache_match entries url = lookup caches CACHE_NAME url"
  using lookup_caches_open [of CACHE_NAME caches CACHE_NAME url] by (simp add: lookup_def)

lemma install_done:
  assumes "fst (install net caches)"
  shows "lookup (snd (install net caches)) name url =
     (if name = CACHE_NAME \<and> strip_fragment url \<in> set urlsToCache
      then net \<lparr>rq_method = ''GET'', rq_url = strip_fragment url\<rparr>
      else lookup caches name url)"
proof (cases rule: install_cases [of net caches])
  case failed
  with assms show ?thesis by simp
next
  case (fetched entries entries')
  then have c: "snd (install net caches) = map (\<lambda>(name, c). if name = CACHE_NAME
      then (name, entries') else (name, c)) (caches_open CACHE_NAME caches)" by simp
  show ?thesis
  proof (cases "name = CACHE_NAME")
    case True
    with c fetched(1) have "lookup (snd (install net caches)) name url = cache_match entries' url"
      by (simp add: lookup_def map_of_replace)
    also have "\<dots> = (if strip_fragment url \<in> set urlsToCache
        then net \<lparr>rq_method = ''GET'', rq_url = strip_fragment url\<rparr>
        else cache_match entries url)"
      by (rule cache_addAll_match [OF fetched(2) plain_urlsToCache])
    finally show ?thesis using True lookup_opened [OF fetched(1)] by simp
  next
    case False
    with c have "lookup (snd (install net caches)) name url =
        lookup (caches_open CACHE_NAME caches) name url"
      by (simp add: lookup_def map_of_replace)
    with False show ?thesis by (simp add: lookup_caches_open)
  qed
qed

lemma install_keeps:
  assumes "lookup caches name url \<noteq> None"
  shows "lookup (snd (install net caches)) name url \<noteq> None"
proof (cases rule: install_cases [of net caches])
  case failed
  with assms show ?thesis by (simp add: lookup_caches_open)
next
  case (fetched entries entries')
  then have i: "fst (install net caches)" by simp
  show ?thesis
  proof (cases "name = CACHE_NAME \<and> strip_fragment url \<in> set urlsToCache")
    case True
    with cache_addAll_fetched [OF fetched(2), of "strip_fragment url"]
      install_done [OF i, of name url]
    show ?thesis by simp
  next
    case False
    with assms install_done [OF i, of name url] show ?thesis by auto
  qed
qed

lemma install_fresh:
  assumes "fst (install net caches)" and "CACHE_NAME \<notin> set (map fst caches)"
  shows "\<exists>entries. snd (install net caches) = caches @ [(CACHE_NAME, entries)] \<and>
     map fst entries = urlsToCache \<and>
     (\<forall>(u, r) \<in> set entries. net \<lparr>rq_method = ''GET'', rq_url = u\<rparr> = Some r)"
proof (cases rule: install_cases [of net caches])
  case failed
  with assms show ?thesis by simp
next
  case (fetched entries entries')
  from assms(2) fetched(1) have "entries = []" by (simp add: map_of_caches_open)
  with fetched(2) have e: "map fst entries' = urlsToCache \<and>
      (\<forall>(u, r) \<in> set entries'. net \<lparr>rq_method = ''GET'', rq_url = u\<rparr> = Some r)"
    by (simp add: cache_addAll_fresh)
  from assms(2) fetched(3) have "snd (install net caches) = caches @ [(CACHE_NAME, entries')]"
    by (simp add: caches_open_def replace_absent)
  with e show ?thesis by blast
qed

lemma caches_match_miss:
  "rq_method request \<noteq> ''GET'' \<or>
   (\<forall>(n, es) \<in> set caches. \<forall>e \<in> set es. \<not> same_url (fst e) (rq_url request)) \<Longrightarrow>
     caches_match caches request = None"
  by (induction caches) (auto simp: cache_match_None_iff [symmetric])

lemma caches_match_hit:
  assumes "rq_method request = ''GET''"
    and "\<forall>(n, es) \<in> set earlier. \<forall>e \<in> set es. \<not> same_url (fst e) (rq_url request)"
    and "cache_match entries (rq_url request) = Some r"
  shows "caches_match (earlier @ (cname, entries) # later) request = Some r"
  using assms(2)
proof (induction earlier)
  case Nil
  with assms(1,3) show ?case by simp
next
  case (Cons c cs)
  obtain n es where c: "c = (n, es)" by (cases c)
  with Cons.prems have "cache_match es (rq_url request) = None"
    by (simp add: cache_match_None_iff)
  with Cons c assms(1) show ?case by simp
qed

text \<open>
  C7, as amended. The fetch listener: for a GET request, when some cache holds an entry
  whose URL is the request's (fragments apart), the answer is the response of the first
  such entry of the first such cache, in the order of creation; for any other request
  the answer is the network's. The listener leaves the cache storage as it is. The
  install is fulfilled exactly when the network answers every listed path with an ok
  response that is not a 206. A fulfilled install leaves in the named cache, under each
  listed path, the response just fetched for it (an entry already stored under a listed
  path is replaced) and keeps every other entry of every cache; on a storage without
  the named cache, the new cache is added last and holds exactly the listed paths, in
  their order, with the fetched responses. An install that is not fulfilled stores
  nothing: it only adds the named cache, empty, when the storage has none. No install,
  fulfilled or not, leaves a cache without a response for a URL it had one for.
\<close>

theorem sw_cache_first:
  "(rq_method request = ''GET'' \<and>
    caches = earlier @ (cname, entries) # later \<and>
    (\<forall>(n, es) \<in> set earlier. \<forall>e \<in> set es. \<not> same_url (fst e) (rq_url request)) \<and>
    entries = before @ (u, r) # after \<and>
    (\<forall>e \<in> set before. \<not> same_url (fst e) (rq_url request)) \<and>
    same_url u (rq_url request) \<longrightarrow>
      on_fetch net caches request = (Some r, caches)) \<and>
   (rq_method request \<noteq> ''GET'' \<or>
    (\<forall>(n, es) \<in> set caches. \<forall>e \<in> set es. \<not> same_url (fst e) (rq_url request)) \<longrightarrow>
      on_fetch net caches request = (net request, caches)) \<and>
   (fst (install net caches) \<longleftrightarrow>
      (\<forall>p \<in> set urlsToCache.
         \<exists>a. net \<lparr>rq_method = ''GET'', rq_url = p\<rparr> = Some a \<and> addable a)) \<and>
   (fst (install net caches) \<longrightarrow>
      lookup (snd (install net caches)) name url =
        (if name = CACHE_NAME \<and> strip_fragment url \<in> set urlsToCache
         then net \<lparr>rq_method = ''GET'', rq_url = strip_fragment url\<rparr>
         else lookup caches name url)) \<and>
   (fst (install net caches) \<and> CACHE_NAME \<notin> set (map fst caches) \<longrightarrow>
      (\<exists>stored. snd (install net caches) = caches @ [(CACHE_NAME, stored)] \<and>
         map fst stored = urlsToCache \<and>
         (\<forall>(p, a) \<in> set stored. net \<lparr>rq_method = ''GET'', rq_url = p\<rparr> = Some a))) \<and>
   (\<not> fst (install net caches) \<longrightarrow>
      snd (install net caches) =
        (if CACHE_NAME \<in> set (map fst caches) then caches else caches @ [(CACHE_NAME, [])])) \<and>
   (lookup caches name url \<noteq> None \<longrightarrow> lookup (snd (install net caches)) name url \<noteq> None)"
proof (intro conjI impI)
  assume a: "rq_method request = ''GET'' \<and>
    caches = earlier @ (cname, entries) # later \<and>
    (\<forall>(n, es) \<in> set earlier. \<forall>e \<in> set es. \<not> same_url (fst e) (rq_url request)) \<and>
    entries = before @ (u, r) # after \<and>
    (\<forall>e \<in> set before. \<not> same_url (fst e) (rq_url request)) \<and>
    same_url u (rq_url request)"
  then have "cache_match entries (rq_url request) = Some r"
    by (simp add: cache_match_first)
  with a have "caches_match caches request = Some r"
    by (simp add: caches_match_hit)
  then show "on_fetch net caches request = (Some r, caches)" by (simp add: on_fetch_def)
next
  assume "rq_method request \<noteq> ''GET'' \<or>
    (\<forall>(n, es) \<in> set caches. \<forall>e \<in> set es. \<not> same_url (fst e) (rq_url request))"
  then have "caches_match caches request = None" by (rule caches_match_miss)
  then show "on_fetch net caches request = (net request, caches)" by (simp add: on_fetch_def)
next
  show "fst (install net caches) \<longleftrightarrow>
      (\<forall>p \<in> set urlsToCache.
         \<exists>a. net \<lparr>rq_method = ''GET'', rq_url = p\<rparr> = Some a \<and> addable a)"
    by (rule install_fulfilled)
next
  assume "fst (install net caches)"
  then show "lookup (snd (install net caches)) name url =
        (if name = CACHE_NAME \<and> strip_fragment url \<in> set urlsToCache
         then net \<lparr>rq_method = ''GET'', rq_url = strip_fragment url\<rparr>
         else lookup caches name url)"
    by (rule install_done)
next
  assume "fst (install net caches) \<and> CACHE_NAME \<notin> set (map fst caches)"
  then show "\<exists>stored. snd (install net caches) = caches @ [(CACHE_NAME, stored)] \<and>
         map fst stored = urlsToCache \<and>
         (\<forall>(p, a) \<in> set stored. net \<lparr>rq_method = ''GET'', rq_url = p\<rparr> = Some a)"
    by (simp add: install_fresh)
next
  assume "\<not> fst (install net caches)"
  then show "snd (install net caches) =
        (if CACHE_NAME \<in> set (map fst caches) then caches else caches @ [(CACHE_NAME, [])])"
    by (simp add: install_rejected caches_open_def)
next
  assume "lookup caches name url \<noteq> None"
  then show "lookup (snd (install net caches)) name url \<noteq> None" by (rule install_keeps)
qed


lemma install_net_ok:
  "install net_ok [] =
     (True, [(CACHE_NAME, map (\<lambda>u. (u, \<lparr>rs_status = 200, rs_body = u\<rparr>)) urlsToCache)])"
  by (simp add: install_def caches_open_def cache_addAll_def net_ok_def response_ok_def
        addable_def urlsToCache_def cache_put_def same_url_def strip_fragment_def)

text \<open>
  C7 as stated fails in its last part: when the named cache already holds an entry for
  a listed path, install replaces it with the response fetched anew.
\<close>

theorem sw_cache_first_counterexample:
  "lookup stale_caches CACHE_NAME ''/'' = Some \<lparr>rs_status = 200, rs_body = ''old page''\<rparr> \<and>
   fst (install net_ok stale_caches) = True \<and>
   lookup (snd (install net_ok stale_caches)) CACHE_NAME ''/'' =
     Some \<lparr>rs_status = 200, rs_body = ''/''\<rparr>"
  by (simp add: lookup_def stale_caches_def install_def caches_open_def cache_addAll_def net_ok_def
        response_ok_def addable_def urlsToCache_def cache_put_def cache_match_def same_url_def
        strip_fragment_def)

text \<open>
  On an empty storage with every path answered, the install is fulfilled and the named
  cache holds the listed paths; a request for \<open>/cart.html#top\<close> is then answered from
  the cache and one for \<open>/api/shops\<close> by the network. With a 206 for one path the
  install is not fulfilled and the named cache is left empty.
\<close>

theorem sw_cache_first_witness:
  "fst (install net_ok []) \<and>
   (\<exists>stored. installed_caches = [(CACHE_NAME, stored)] \<and> map fst stored = urlsToCache) \<and>
   on_fetch net_ok installed_caches cart_page_request =
     (Some \<lparr>rs_status = 200, rs_body = ''/cart.html''\<rparr>, installed_caches) \<and>
   on_fetch net_ok installed_caches shops_request = (net_ok shops_request, installed_caches) \<and>
   \<not> fst (install net_partial []) \<and>
   snd (install net_partial []) = [(CACHE_NAME, [])] \<and>
   lookup stale_caches CACHE_NAME ''/#a'' \<noteq> None \<and>
   lookup (snd (install net_partial stale_caches)) CACHE_NAME ''/#a'' \<noteq> None \<and>
   lookup (snd (install net_ok stale_caches)) CACHE_NAME ''/#a'' =
     Some \<lparr>rs_status = 200, rs_body = ''/''\<rparr>"
proof -
  note t = sw_cache_first
  have c: "installed_caches =
      [(CACHE_NAME, map (\<lambda>u. (u, \<lparr>rs_status = 200, rs_body = u\<rparr>)) urlsToCache)]"
    by (simp add: installed_caches_def install_net_ok)
  have ok: "fst (install net_ok [])"
    using t [where net = net_ok and caches = "[]", THEN conjunct2, THEN conjunct2, THEN conjunct1]
    by (simp add: net_ok_def addable_def response_ok_def)
  have fresh: "\<exists>stored. installed_caches = [(CACHE_NAME, stored)] \<and> map fst stored = urlsToCache"
  proof -
    from t [where net = net_ok and caches = "[]", THEN conjunct2, THEN conjunct2, THEN conjunct2,
        THEN conjunct2, THEN conjunct1] ok
    obtain stored where "snd (install net_ok []) = [] @ [(CACHE_NAME, stored)]"
      "map fst stored = urlsToCache"
      by auto
    then show ?thesis by (simp add: installed_caches_def)
  qed
  have hit: "on_fetch net_ok installed_caches cart_page_request =
      (Some \<lparr>rs_status = 200, rs_body = ''/cart.html''\<rparr>, installed_caches)"
    using t [where net = net_ok and caches = installed_caches and request = cart_page_request
        and earlier = "[]" and cname = CACHE_NAME and later = "[]"
        and entries = "map (\<lambda>u. (u, \<lparr>rs_status = 200, rs_body = u\<rparr>)) urlsToCache"
        and before = "map (\<lambda>u. (u, \<lparr>rs_status = 200, rs_body = u\<rparr>))
                          [''/'', ''/index.html'', ''/items.html'']"
        and u = "''/cart.html''" and r = "\<lparr>rs_status = 200, rs_body = ''/cart.html''\<rparr>"
        and after = "map (\<lambda>u. (u, \<lparr>rs_status = 200, rs_body = u\<rparr>))
                          [''/login.html'', ''/orders.html'', ''/manifest.json'',
                           ''/icon-192.png'', ''/icon-512.png'']",
        THEN conjunct1]
    by (simp add: c cart_page_request_def urlsToCache_def same_url_def strip_fragment_def)
  have miss: "on_fetch net_ok installed_caches shops_request =
      (net_ok shops_request, installed_caches)"
    using t [where net = net_ok and caches = installed_caches and request = shops_request,
        THEN conjunct2, THEN conjunct1]
    by (simp add: c shops_request_def urlsToCache_def same_url_def strip_fragment_def)
  have bad: "\<not> fst (install net_partial [])"
    using t [where net = net_partial and caches = "[]",
        THEN conjunct2, THEN conjunct2, THEN conjunct1]
    by (simp add: net_partial_def net_ok_def addable_def response_ok_def urlsToCache_def)
  have empty: "snd (install net_partial []) = [(CACHE_NAME, [])]"
    using t [where net = net_partial and caches = "[]", THEN conjunct2, THEN conjunct2,
        THEN conjunct2, THEN conjunct2, THEN conjunct2, THEN conjunct1] bad
    by simp
  have had: "lookup stale_caches CACHE_NAME ''/#a'' \<noteq> None"
    by (simp add: lookup_def stale_caches_def cache_match_def same_url_def strip_fragment_def)
  have kept: "lookup (snd (install net_partial stale_caches)) CACHE_NAME ''/#a'' \<noteq> None"
    using t [where net = net_partial and caches = stale_caches and name = CACHE_NAME
        and url = "''/#a''", THEN conjunct2, THEN conjunct2, THEN conjunct2, THEN conjunct2,
        THEN conjunct2, THEN conjunct2] had
    by simp
  have ok2: "fst (install net_ok stale_caches)"
    using t [where net = net_ok and caches = stale_caches,
        THEN conjunct2, THEN conjunct2, THEN conjunct1]
    by (simp add: net_ok_def addable_def response_ok_def)
  have new: "lookup (snd (install net_ok stale_caches)) CACHE_NAME ''/#a'' =
      Some \<lparr>rs_status = 200, rs_body = ''/''\<rparr>"
    using t [where net = net_ok and caches = stale_caches and name = CACHE_NAME
        and url = "''/#a''", THEN conjunct2, THEN conjunct2, THEN conjunct2, THEN conjunct1] ok2
    by (simp add: urlsToCache_def strip_fragment_def net_ok_def)
  from ok fresh hit miss bad empty had kept new show ?thesis by (intro conjI)
qed

end
